theory Spec2Isabelle
  imports Complex_Main
begin

section \<open>JavaScript values\<close>

text \<open>
  A JavaScript number is a rational, or one of the three non-finite values. A quotient
  is rounded to the nearest double as IEEE 754 has it (\<open>to_double\<close> below). Sums,
  differences and remainders are kept exact: on doubles they are exact whenever the
  operands and the result are integers below \<open>2^53\<close>, which the coordinates and
  lengths of a grid are (a remainder of doubles is always exact). What is left out is
  the sign of zero: \<open>-0\<close> is \<open>0\<close>; the two only differ under division, where they
  select the sign of an infinity.
\<close>

datatype jsnum = Fin rat | NaN | PosInf | NegInf

datatype jsval = Undefined | Null | Boolean bool | Number jsnum | String string | Object

datatype error = TypeError string | RangeError string | SyntaxError string

fun isNaN :: "jsnum \<Rightarrow> bool" where
  "isNaN NaN = True"
| "isNaN _ = False"

fun isFinite :: "jsnum \<Rightarrow> bool" where
  "isFinite (Fin _) = True"
| "isFinite _ = False"

text \<open>\<open>Math.round\<close> rounds to the nearest integer, a half towards \<open>+\<infinity>\<close>.\<close>

fun Math_round :: "jsnum \<Rightarrow> jsnum" where
  "Math_round (Fin q) = Fin (of_int \<lfloor>q + 1 / 2\<rfloor>)"
| "Math_round n = n"

fun Math_ceil :: "jsnum \<Rightarrow> jsnum" where
  "Math_ceil (Fin q) = Fin (of_int \<lceil>q\<rceil>)"
| "Math_ceil n = n"

fun Math_floor :: "jsnum \<Rightarrow> jsnum" where
  "Math_floor (Fin q) = Fin (of_int \<lfloor>q\<rfloor>)"
| "Math_floor n = n"

text \<open>The relational operators \<open><\<close> and \<open><=\<close>: false as soon as one side is NaN.\<close>

fun js_lt :: "jsnum \<Rightarrow> jsnum \<Rightarrow> bool" where
  "js_lt (Fin a) (Fin b) = (a < b)"
| "js_lt (Fin a) PosInf = True"
| "js_lt NegInf (Fin b) = True"
| "js_lt NegInf PosInf = True"
| "js_lt _ _ = False"

fun js_le :: "jsnum \<Rightarrow> jsnum \<Rightarrow> bool" where
  "js_le (Fin a) (Fin b) = (a \<le> b)"
| "js_le (Fin a) PosInf = True"
| "js_le NegInf (Fin b) = True"
| "js_le NegInf PosInf = True"
| "js_le NegInf NegInf = True"
| "js_le PosInf PosInf = True"
| "js_le _ _ = False"

fun js_neg :: "jsnum \<Rightarrow> jsnum" where
  "js_neg (Fin a) = Fin (- a)"
| "js_neg NaN = NaN"
| "js_neg PosInf = NegInf"
| "js_neg NegInf = PosInf"

fun js_add :: "jsnum \<Rightarrow> jsnum \<Rightarrow> jsnum" where
  "js_add (Fin a) (Fin b) = Fin (a + b)"
| "js_add NaN _ = NaN"
| "js_add _ NaN = NaN"
| "js_add PosInf NegInf = NaN"
| "js_add NegInf PosInf = NaN"
| "js_add PosInf _ = PosInf"
| "js_add NegInf _ = NegInf"
| "js_add (Fin a) b = b"

definition js_sub :: "jsnum \<Rightarrow> jsnum \<Rightarrow> jsnum" where
  "js_sub a b = js_add a (js_neg b)"

text \<open>
  Rounding to binary64, to nearest, ties to even. \<open>expo n a\<close> is the binary exponent
  of \<open>a > 0\<close>, found by halving or doubling at most \<open>n\<close> times; every \<open>a\<close> that is
  neither rounded to 0 nor to an infinity at once has its exponent between \<open>-1075\<close>
  and \<open>1023\<close>. The unit in the last place is \<open>2^(e - 52)\<close>, with the exponent of
  the subnormal numbers, \<open>-1022\<close>, as the least \<open>e\<close>. A magnitude that rounds to
  \<open>2^1024\<close> or more is an infinity.
\<close>

fun expo :: "nat \<Rightarrow> rat \<Rightarrow> int" where
  "expo 0 a = 0"
| "expo (Suc n) a =
     (if 2 \<le> a then expo n (a / 2) + 1
      else if a < 1 then expo n (a * 2) - 1
      else 0)"

definition round_half_even :: "rat \<Rightarrow> int" where
  "round_half_even q =
     (if q - of_int \<lfloor>q\<rfloor> < 1 / 2 then \<lfloor>q\<rfloor>
      else if 1 / 2 < q - of_int \<lfloor>q\<rfloor> then \<lfloor>q\<rfloor> + 1
      else if even \<lfloor>q\<rfloor> then \<lfloor>q\<rfloor> else \<lfloor>q\<rfloor> + 1)"

definition ulp :: "rat \<Rightarrow> rat" where
  "ulp a = 2 powi (max (expo 1100 a) (- 1022) - 52)"

definition to_double :: "rat \<Rightarrow> jsnum" where
  "to_double q =
     (if 2 ^ 1024 \<le> \<bar>q\<bar> then (if 0 < q then PosInf else NegInf)
      else if \<bar>q\<bar> \<le> 1 / 2 ^ 1075 then Fin 0
      else if 2 ^ 1024 \<le> of_int (round_half_even (\<bar>q\<bar> / ulp \<bar>q\<bar>)) * ulp \<bar>q\<bar>
        then (if 0 < q then PosInf else NegInf)
      else Fin (sgn q * (of_int (round_half_even (\<bar>q\<bar> / ulp \<bar>q\<bar>)) * ulp \<bar>q\<bar>)))"

fun js_div :: "jsnum \<Rightarrow> jsnum \<Rightarrow> jsnum" where
  "js_div (Fin a) (Fin b) =
     (if b \<noteq> 0 then to_double (a / b)
      else if a = 0 then NaN
      else if 0 < a then PosInf else NegInf)"
| "js_div NaN _ = NaN"
| "js_div _ NaN = NaN"
| "js_div (Fin a) _ = Fin 0"
| "js_div PosInf (Fin b) = (if 0 \<le> b then PosInf else NegInf)"
| "js_div NegInf (Fin b) = (if 0 \<le> b then NegInf else PosInf)"
| "js_div _ _ = NaN"

text \<open>
  The remainder operator \<open>%\<close> truncates the quotient towards zero, so the result has
  the sign of the dividend; a zero divisor or an infinite dividend gives NaN.
\<close>

definition trunc :: "rat \<Rightarrow> int" where
  "trunc q = (if q < 0 then \<lceil>q\<rceil> else \<lfloor>q\<rfloor>)"

fun js_rem :: "jsnum \<Rightarrow> jsnum \<Rightarrow> jsnum" where
  "js_rem (Fin a) (Fin b) = (if b = 0 then NaN else Fin (a - b * of_int (trunc (a / b))))"
| "js_rem (Fin a) PosInf = Fin a"
| "js_rem (Fin a) NegInf = Fin a"
| "js_rem _ _ = NaN"

text \<open>Truthiness, as \<open>if (v)\<close>, \<open>!v\<close> and \<open>a && b\<close> test it.\<close>

fun truthy :: "jsval \<Rightarrow> bool" where
  "truthy Undefined = False"
| "truthy Null = False"
| "truthy (Boolean b) = b"
| "truthy (Number n) = (n \<noteq> NaN \<and> n \<noteq> Fin 0)"
| "truthy (String s) = (s \<noteq> [])"
| "truthy Object = True"

text \<open>
  Reading \<open>xs[i]\<close> from an array: the element when \<open>i\<close> is an integer inside the
  array, \<open>undefined\<close> (here \<open>None\<close>) for every other number.
\<close>

fun index :: "'a list \<Rightarrow> jsnum \<Rightarrow> 'a option" where
  "index xs (Fin q) =
     (if 0 \<le> q \<and> q = of_int \<lfloor>q\<rfloor> \<and> nat \<lfloor>q\<rfloor> < length xs then Some (xs ! nat \<lfloor>q\<rfloor>)
      else None)"
| "index xs _ = None"

text \<open>
  \<open>new Array(n)\<close> raises a RangeError unless \<open>n\<close> is an integer in \<open>[0, 2^32)\<close>;
  otherwise the array has \<open>n\<close> slots.
\<close>

fun new_Array :: "jsnum \<Rightarrow> error + nat" where
  "new_Array (Fin q) =
     (if 0 \<le> q \<and> q = of_int \<lfloor>q\<rfloor> \<and> q < 2 ^ 32 then Inr (nat \<lfloor>q\<rfloor>)
      else Inl (RangeError ''Invalid array length''))"
| "new_Array _ = Inl (RangeError ''Invalid array length'')"

section \<open>The automaton engine\<close>

definition dead :: nat where
  "dead = 0"

definition alive :: nat where
  "alive = 1"

text \<open>
  The private fields of \<open>GameOfLife\<close> that the grid operations read. The grid is an
  array of \<open>width\<close> columns, each an array of \<open>height\<close> cells: \<open>grid[i][j]\<close>.
\<close>

record engine =
  width :: jsnum
  height :: jsnum
  torus :: jsval
  grid :: "nat list list"
  cellSize :: jsnum
  cellColor :: string
  framesPerSecond :: jsval

text \<open>
  \<open>this.#grid[i][j]\<close>: reading a property of \<open>undefined\<close> raises a TypeError, a
  missing element of a row reads as \<open>undefined\<close>.
\<close>

definition read2 :: "nat list list \<Rightarrow> jsnum \<Rightarrow> jsnum \<Rightarrow> error + nat option" where
  "read2 g i j =
     (case index g i of
        None \<Rightarrow> Inl (TypeError ''Cannot read properties of undefined'')
      | Some row \<Rightarrow> Inr (index row j))"

definition cell :: "engine \<Rightarrow> jsnum \<Rightarrow> jsnum \<Rightarrow> error + nat option" where
  "cell e i0 j0 =
     (let i = Math_round i0; j = Math_round j0 in
      if isNaN i \<or> \<not> isFinite i \<or> isNaN j \<or> \<not> isFinite j then Inr (Some dead)
      else if truthy (torus e) then
        (let i' = (if js_lt i (Fin 0) then js_add (width e) (js_rem i (width e))
                   else js_rem i (width e));
             j' = (if js_lt j (Fin 0) then js_add (height e) (js_rem j (height e))
                   else js_rem j (height e))
         in read2 (grid e) i' j')
      else if js_lt i (Fin 0) \<or> js_le (width e) i \<or> js_lt j (Fin 0) \<or> js_le (height e) j
        then Inr (Some dead)
      else read2 (grid e) i j)"

definition bindE :: "error + 'a \<Rightarrow> ('a \<Rightarrow> error + 'b) \<Rightarrow> error + 'b" where
  "bindE m f = (case m of Inl err \<Rightarrow> Inl err | Inr v \<Rightarrow> f v)"

text \<open>In a sum the cell values are numbers and \<open>undefined\<close> is NaN.\<close>

definition to_number :: "nat option \<Rightarrow> jsnum" where
  "to_number v = (case v of None \<Rightarrow> NaN | Some n \<Rightarrow> Fin (of_nat n))"

definition neighbours :: "engine \<Rightarrow> jsnum \<Rightarrow> jsnum \<Rightarrow> error + jsnum" where
  "neighbours e i j =
     (let left = js_sub i (Fin 1); mid = i; right = js_add i (Fin 1);
          top = js_sub j (Fin 1); center = j; bottom = js_add j (Fin 1)
      in
      bindE (cell e left top) (\<lambda>c1.
      bindE (cell e mid top) (\<lambda>c2.
      bindE (cell e right top) (\<lambda>c3.
      bindE (cell e left center) (\<lambda>c4.
      bindE (cell e right center) (\<lambda>c5.
      bindE (cell e left bottom) (\<lambda>c6.
      bindE (cell e mid bottom) (\<lambda>c7.
      bindE (cell e right bottom) (\<lambda>c8.
        Inr (js_add (js_add (js_add (js_add (js_add (js_add (js_add
               (to_number c1) (to_number c2)) (to_number c3)) (to_number c4))
               (to_number c5)) (to_number c6)) (to_number c7)) (to_number c8)))))))))))"

text \<open>
  A filler is called as \<open>filler(i, j, this)\<close>. Of \<open>this\<close> it can read the getters
  \<open>width\<close> and \<open>height\<close>, the view. A filler may be a closure over variables it
  assigns (the counter of \<open>update\<close>, the offsets of \<open>rleFiller\<close>): they are the state
  \<open>'s\<close>, threaded through the calls in the order of the loops. The result is the
  truthiness of what the filler returns, or what it throws.
\<close>

type_synonym view = "jsnum \<times> jsnum"

type_synonym 's filler = "jsnum \<Rightarrow> jsnum \<Rightarrow> view \<Rightarrow> 's \<Rightarrow> error + (bool \<times> 's)"

datatype 's filler_arg = Function "'s filler" | NotFunction jsval

text \<open>The inner loop of \<open>#createGrid\<close>, \<open>row[j] = filler(i, j, this) ? alive : dead\<close>.\<close>

fun fillRow :: "'s filler \<Rightarrow> view \<Rightarrow> nat \<Rightarrow> nat list \<Rightarrow> 's \<Rightarrow> error + (nat list \<times> 's)" where
  "fillRow f v i [] s = Inr ([], s)"
| "fillRow f v i (j # js) s =
     bindE (f (Fin (of_nat i)) (Fin (of_nat j)) v s) (\<lambda>(b, s').
     bindE (fillRow f v i js s') (\<lambda>(row, s'').
       Inr ((if b then alive else dead) # row, s'')))"

text \<open>One pass of the outer loop: the row is allocated, then filled or zeroed.\<close>

definition createRow :: "'s filler_arg \<Rightarrow> view \<Rightarrow> nat \<Rightarrow> 's \<Rightarrow> error + (nat list \<times> 's)" where
  "createRow filler v i s =
     bindE (new_Array (snd v)) (\<lambda>h.
       case filler of
         Function f \<Rightarrow> fillRow f v i [0..<h] s
       | NotFunction _ \<Rightarrow> Inr (replicate h dead, s))"

fun createRows :: "'s filler_arg \<Rightarrow> view \<Rightarrow> nat list \<Rightarrow> 's \<Rightarrow> error + (nat list list \<times> 's)" where
  "createRows filler v [] s = Inr ([], s)"
| "createRows filler v (i # is) s =
     bindE (createRow filler v i s) (\<lambda>(row, s').
     bindE (createRows filler v is s') (\<lambda>(g, s'').
       Inr (row # g, s'')))"

text \<open>
  \<open>#createGrid\<close> builds the new grid in a local array and assigns \<open>this.#grid\<close> last:
  while the loops run, \<open>this\<close> is the engine as it was.
\<close>

definition createGrid :: "engine \<Rightarrow> 's filler_arg \<Rightarrow> 's \<Rightarrow> error + (engine \<times> 's)" where
  "createGrid e filler s =
     bindE (new_Array (width e)) (\<lambda>w.
     bindE (createRows filler (width e, height e) [0..<w] s) (\<lambda>(g, s').
       Inr (e\<lparr>grid := g\<rparr>, s')))"

text \<open>The arrow function that \<open>update\<close> passes as filler; its state is \<open>result\<close>.\<close>

definition update_filler :: "engine \<Rightarrow> nat filler" where
  "update_filler e i j v result =
     bindE (neighbours e i j) (\<lambda>n.
     bindE (read2 (grid e) i j) (\<lambda>c.
       if c = Some alive then
         (if n = Fin 2 \<or> n = Fin 3 then Inr (True, result + 1) else Inr (False, result))
       else if c = Some dead then
         (if n = Fin 3 then Inr (True, result + 1) else Inr (False, result))
       else Inr (False, result)))"

definition update :: "engine \<Rightarrow> error + (nat \<times> engine)" where
  "update e =
     bindE (createGrid e (Function (update_filler e)) 0) (\<lambda>(e', result). Inr (result, e'))"

subsection \<open>The constructor\<close>

text \<open>
  The third argument is destructured with defaults; a property that is \<open>undefined\<close>
  takes its default. The canvas is an \<open>HTMLCanvasElement\<close> with its \<open>width\<close> and
  \<open>height\<close> (unsigned), or some other value.
\<close>

record settings =
  opt_size :: jsval
  opt_color :: jsval
  opt_torus :: jsval
  opt_framesPerSecond :: jsval

datatype canvas_arg = HTMLCanvasElement nat nat | NotCanvas jsval

definition dflt :: "jsval \<Rightarrow> jsval \<Rightarrow> jsval" where
  "dflt v d = (if v = Undefined then d else v)"

text \<open>
  The engine exists once \<open>#createGrid\<close> has returned; before that \<open>this.#grid\<close> is
  unset, which no filler can observe through the view (the \<open>[]\<close> below stands for it).
  The call of \<open>requestAnimationFrame\<close> that draws the first frame is not modelled.
\<close>

definition GameOfLife :: "canvas_arg \<Rightarrow> 's filler_arg \<Rightarrow> settings \<Rightarrow> 's \<Rightarrow> error + (engine \<times> 's)" where
  "GameOfLife canvas filler opts s =
     (let size = dflt (opt_size opts) (Number (Fin 10));
          color = dflt (opt_color opts) (String ''#FF0000'');
          torus = dflt (opt_torus opts) (Boolean False);
          fps = dflt (opt_framesPerSecond opts) (Number (Fin 5))
      in
      case canvas of
        NotCanvas _ \<Rightarrow> Inl (TypeError ''Invalid canvas!'')
      | HTMLCanvasElement cw ch \<Rightarrow>
          if (case filler of NotFunction f \<Rightarrow> truthy f | Function _ \<Rightarrow> False)
          then Inl (TypeError ''Invalid filler!'')
          else
            (case size of
               Number sz \<Rightarrow>
                 (case color of
                    String col \<Rightarrow>
                      if isNaN sz \<or> \<not> isFinite sz \<or> js_lt sz (Fin 0)
                      then Inl (RangeError ''Size should be in (0, oo)!'')
                      else createGrid
                        \<lparr>width = Math_ceil (js_div (Fin (of_nat cw)) sz),
                         height = Math_ceil (js_div (Fin (of_nat ch)) sz),
                         torus = torus, grid = [], cellSize = sz, cellColor = col,
                         framesPerSecond = fps\<rparr> filler s
                  | _ \<Rightarrow> Inl (TypeError ''Invalid color!''))
             | _ \<Rightarrow> Inl (TypeError ''Invalid size!'')))"

section \<open>The RLE decoder\<close>

text \<open>
  Pattern text is a list of characters, a character being a code point below 256.
  Of these, \<open>trim\<close> and \<open>\s\<close> take as white space: tab, line feed, vertical tab, form
  feed, carriage return, space and the no-break space.
\<close>

definition is_space :: "char \<Rightarrow> bool" where
  "is_space c =
     (c \<in> set [CHR 0x09, CHR 0x0A, CHR 0x0B, CHR 0x0C, CHR 0x0D, CHR '' '', CHR 0xA0])"

definition is_digit :: "char \<Rightarrow> bool" where
  "is_digit c = (c \<in> set ''0123456789'')"

definition digit_val :: "char \<Rightarrow> nat" where
  "digit_val c = of_char c - 48"

text \<open>\<open>Number(s)\<close> on a string of decimal digits.\<close>

definition number_of :: "string \<Rightarrow> nat" where
  "number_of s = foldl (\<lambda>n c. n * 10 + digit_val c) 0 s"

definition trim :: "string \<Rightarrow> string" where
  "trim s = rev (dropWhile is_space (rev (dropWhile is_space s)))"

text \<open>\<open>text.split('\n')\<close>: always at least one line.\<close>

fun split_lines :: "string \<Rightarrow> string list" where
  "split_lines [] = [[]]"
| "split_lines (c # cs) =
     (if c = CHR 0x0A then [] # split_lines cs
      else (case split_lines cs of l # ls \<Rightarrow> (c # l) # ls | [] \<Rightarrow> [[c]]))"

subsection \<open>The header\<close>

text \<open>
  The header is found with the unanchored regular expression
  \<^verbatim>\<open>\s*x\s*=\s*(\d+),\s*y\s*=\s*(\d+)(,\s*rule\s*=\s*(.+))?\<close>.
  Every quantifier in it is followed by a character it cannot itself match, so the
  greedy choice is the only one that can succeed: \<open>header_at\<close> matches the expression
  at the start of a string, \<open>header_exec\<close> tries the start positions from the left.
  The optional group changes neither of the two numbers.
\<close>

fun lit :: "char \<Rightarrow> string \<Rightarrow> string option" where
  "lit c [] = None"
| "lit c (d # ds) = (if c = d then Some ds else None)"

definition digits :: "string \<Rightarrow> (string \<times> string) option" where
  "digits s =
     (if takeWhile is_digit s = [] then None
      else Some (takeWhile is_digit s, dropWhile is_digit s))"

definition header_at :: "string \<Rightarrow> (nat \<times> nat) option" where
  "header_at s =
     (case lit CHR ''x'' (dropWhile is_space s) of None \<Rightarrow> None | Some s1 \<Rightarrow>
      case lit CHR ''='' (dropWhile is_space s1) of None \<Rightarrow> None | Some s2 \<Rightarrow>
      case digits (dropWhile is_space s2) of None \<Rightarrow> None | Some (w, s3) \<Rightarrow>
      case lit CHR '','' s3 of None \<Rightarrow> None | Some s4 \<Rightarrow>
      case lit CHR ''y'' (dropWhile is_space s4) of None \<Rightarrow> None | Some s5 \<Rightarrow>
      case lit CHR ''='' (dropWhile is_space s5) of None \<Rightarrow> None | Some s6 \<Rightarrow>
      case digits (dropWhile is_space s6) of None \<Rightarrow> None | Some (h, s7) \<Rightarrow>
        Some (number_of w, number_of h))"

fun header_exec :: "string \<Rightarrow> (nat \<times> nat) option" where
  "header_exec [] = header_at []"
| "header_exec (c # cs) =
     (case header_at (c # cs) of Some r \<Rightarrow> Some r | None \<Rightarrow> header_exec cs)"

subsection \<open>The body\<close>

text \<open>
  A row of the pattern grid is a JavaScript array: a slot holds a cell value or is a
  hole (\<open>None\<close>, read as \<open>undefined\<close>). Storing at an index past the end extends the
  array, leaving holes between; storing into a row that does not exist raises a
  TypeError. The greatest index of an array is \<open>2^32 - 2\<close>: a store at a greater
  number sets a property that is no element, and the length stays. The rows here are
  the elements only, which is all that \<open>length\<close> and a read below it see.
\<close>

type_synonym pgrid = "nat option list list"

definition js_store :: "'a option list \<Rightarrow> nat \<Rightarrow> 'a \<Rightarrow> 'a option list" where
  "js_store xs i v =
     (if i < length xs then xs[i := Some v]
      else if int i < 2 ^ 32 - 1 then xs @ replicate (i - length xs) None @ [Some v]
      else xs)"

definition mark :: "pgrid \<Rightarrow> nat \<Rightarrow> nat \<Rightarrow> error + pgrid" where
  "mark g y x =
     (if y < length g then Inr (g[y := js_store (g ! y) x alive])
      else Inl (TypeError ''Cannot set properties of undefined''))"

fun mark_run :: "pgrid \<Rightarrow> nat \<Rightarrow> nat \<Rightarrow> nat list \<Rightarrow> error + pgrid" where
  "mark_run g y x [] = Inr g"
| "mark_run g y x (i # is) = bindE (mark g y (x + i)) (\<lambda>g'. mark_run g' y x is)"

text \<open>The header loop: \<open>height\<close> rows, each \<open>new Array(width)\<close> filled with \<open>dead\<close>.\<close>

definition blank_grid :: "nat \<Rightarrow> nat \<Rightarrow> error + pgrid" where
  "blank_grid w h =
     (if h = 0 then Inr []
      else bindE (new_Array (Fin (of_nat w))) (\<lambda>n. Inr (replicate h (replicate n (Some dead)))))"

record cursor =
  pat :: pgrid
  runCount :: nat
  cx :: nat
  cy :: nat

datatype flow = Next cursor | Return pgrid | Throw error

text \<open>The shared tail of the cases \<open>'o'\<close> and \<open>'b'\<close>: \<open>'o'\<close> falls through into it.\<close>

definition advance :: "cursor \<Rightarrow> cursor" where
  "advance st = st\<lparr>cx := cx st + (if runCount st > 0 then runCount st else 1), runCount := 0\<rparr>"

definition tag :: "cursor \<Rightarrow> char \<Rightarrow> flow" where
  "tag st c =
     (if c = CHR '' '' \<or> c = CHR 0x0D \<or> c = CHR 0x09 then Next st
      else if is_digit c then Next (st\<lparr>runCount := runCount st * 10 + digit_val c\<rparr>)
      else if c = CHR ''o'' then
        (case (if runCount st = 0 then mark (pat st) (cy st) (cx st)
               else mark_run (pat st) (cy st) (cx st) [0..<runCount st]) of
           Inl err \<Rightarrow> Throw err
         | Inr g \<Rightarrow> Next (advance (st\<lparr>pat := g\<rparr>)))
      else if c = CHR ''b'' then Next (advance st)
      else if c = CHR ''$'' then Next (st\<lparr>cy := cy st + 1, cx := 0\<rparr>)
      else if c = CHR ''!'' then Return (pat st)
      else Throw (SyntaxError ''Invalid tag!''))"

fun tags :: "cursor \<Rightarrow> string \<Rightarrow> flow" where
  "tags st [] = Next st"
| "tags st (c # cs) =
     (case tag st c of Next st' \<Rightarrow> tags st' cs | Return g \<Rightarrow> Return g | Throw err \<Rightarrow> Throw err)"

text \<open>
  The loop over the lines. Before the header \<open>grid\<close> is unset (\<open>None\<close>) and the
  counters are still 0. Falling off the end of the loop returns \<open>undefined\<close>, which
  is \<open>Inr None\<close>.
\<close>

fun decode :: "cursor option \<Rightarrow> string list \<Rightarrow> error + pgrid option" where
  "decode st [] = Inr None"
| "decode st (l # ls) =
     (if trim l = [] then decode st ls
      else if hd (trim l) = CHR ''#'' then decode st ls
      else
        (case st of
           None \<Rightarrow>
             (case header_exec (trim l) of
                None \<Rightarrow> Inl (SyntaxError ''Invalid header!'')
              | Some (w, h) \<Rightarrow>
                  bindE (blank_grid w h) (\<lambda>g.
                    decode (Some \<lparr>pat = g, runCount = 0, cx = 0, cy = 0\<rparr>) ls))
         | Some c \<Rightarrow>
             (case tags c (trim l) of
                Next c' \<Rightarrow> decode (Some c') ls
              | Return g \<Rightarrow> Inr (Some g)
              | Throw err \<Rightarrow> Inl err)))"

definition loadRle :: "string \<Rightarrow> error + pgrid option" where
  "loadRle runLengthEncoded = decode None (split_lines runLengthEncoded)"

subsection \<open>The filler of a pattern\<close>

text \<open>
  \<open>rleFiller\<close> decodes once and returns a closure over the grid, its dimensions and
  the two variables \<open>tranX\<close>, \<open>tranY\<close>, unset at first. The closure is \<open>rle_call\<close>;
  the two variables are its state.
\<close>

record pattern =
  pat_grid :: pgrid
  pat_width :: nat
  pat_height :: nat

definition rleFiller :: "string \<Rightarrow> error + pattern" where
  "rleFiller runLengthEncoded =
     bindE (loadRle runLengthEncoded) (\<lambda>r.
       case r of
         None \<Rightarrow> Inl (TypeError ''Cannot read properties of undefined'')
       | Some g \<Rightarrow>
           Inr \<lparr>pat_grid = g,
                pat_width = (if length g > 0 then length (g ! 0) else 0),
                pat_height = length g\<rparr>)"

type_synonym offsets = "jsnum option \<times> jsnum option"

text \<open>\<open>! tran\<close>: true of \<open>undefined\<close>, of 0 and of NaN.\<close>

definition not_tran :: "jsnum option \<Rightarrow> bool" where
  "not_tran t = (case t of None \<Rightarrow> True | Some n \<Rightarrow> n = NaN \<or> n = Fin 0)"

definition centre :: "jsnum \<Rightarrow> nat \<Rightarrow> jsnum" where
  "centre outer inner = Math_floor (js_div (js_sub outer (Fin (of_nat inner))) (Fin 2))"

definition rle_call :: "pattern \<Rightarrow> offsets filler" where
  "rle_call p x0 y0 game st =
     (let tranX = (if not_tran (fst st) then centre (fst game) (pat_width p)
                   else (case fst st of Some t \<Rightarrow> t | None \<Rightarrow> NaN));
          tranY = (if not_tran (snd st) then centre (snd game) (pat_height p)
                   else (case snd st of Some t \<Rightarrow> t | None \<Rightarrow> NaN));
          x = js_sub x0 tranX;
          y = js_sub y0 tranY
      in
      if js_le (Fin 0) x \<and> js_lt x (Fin (of_nat (pat_width p)))
         \<and> js_le (Fin 0) y \<and> js_lt y (Fin (of_nat (pat_height p)))
      then
        (case index (pat_grid p) y of
           None \<Rightarrow> Inl (TypeError ''Cannot read properties of undefined'')
         | Some row \<Rightarrow> Inr (index row x = Some (Some alive), (Some tranX, Some tranY)))
      else Inr (False, (Some tranX, Some tranY)))"

section \<open>The run lifecycle\<close>

text \<open>
  The engine with its \<open>#handler\<close> field and the part of the browser that
  \<open>start\<close> and \<open>stop\<close> talk to: the timeouts that are set and have not fired, and
  the number of step callbacks waiting for an animation frame. Timer identifiers are
  positive and never reused.
\<close>

record game =
  eng :: engine
  handler :: "nat option"
  timeouts :: "nat list"
  frames :: nat
  next_id :: nat

definition new_game :: "engine \<Rightarrow> game" where
  "new_game e = \<lparr>eng = e, handler = None, timeouts = [], frames = 0, next_id = 1\<rparr>"

definition start :: "game \<Rightarrow> game" where
  "start g =
     (if handler g \<noteq> None then g
      else g\<lparr>handler := Some (next_id g), timeouts := next_id g # timeouts g,
             next_id := next_id g + 1\<rparr>)"

text \<open>\<open>clearTimeout\<close> of an identifier that is not pending does nothing.\<close>

definition clearTimeout :: "nat \<Rightarrow> game \<Rightarrow> game" where
  "clearTimeout h g = g\<lparr>timeouts := removeAll h (timeouts g)\<rparr>"

definition stop :: "game \<Rightarrow> game" where
  "stop g =
     (case handler g of
        None \<Rightarrow> g\<lparr>handler := None\<rparr>
      | Some h \<Rightarrow> (if h \<noteq> 0 then clearTimeout h g else g)\<lparr>handler := None\<rparr>)"

text \<open>
  The callback of \<open>setTimeout\<close> only asks for an animation frame. The callback of the
  frame draws, updates, clears the handler and starts again while cells are left; an
  exception of \<open>update\<close> ends it where it is raised.
\<close>

definition timer_fires :: "nat \<Rightarrow> game \<Rightarrow> game" where
  "timer_fires h g = g\<lparr>timeouts := removeAll h (timeouts g), frames := frames g + 1\<rparr>"

definition frame_fires :: "game \<Rightarrow> game" where
  "frame_fires g =
     (case update (eng g) of
        Inl err \<Rightarrow> g\<lparr>frames := frames g - 1\<rparr>
      | Inr (count, e') \<Rightarrow>
          (let g' = g\<lparr>frames := frames g - 1, eng := e', handler := None\<rparr>
           in if count > 0 then start g' else g'))"

datatype event = Start | Stop | TimerFires nat | FrameFires

text \<open>An event the browser cannot deliver in a state (a timer that is not pending,
  a frame nobody asked for) has no successor.\<close>

fun fire :: "game \<Rightarrow> event \<Rightarrow> game option" where
  "fire g Start = Some (start g)"
| "fire g Stop = Some (stop g)"
| "fire g (TimerFires h) = (if h \<in> set (timeouts g) then Some (timer_fires h g) else None)"
| "fire g FrameFires = (if frames g > 0 then Some (frame_fires g) else None)"

fun run :: "game \<Rightarrow> event list \<Rightarrow> game option" where
  "run g [] = Some g"
| "run g (ev # evs) = (case fire g ev of None \<Rightarrow> None | Some g' \<Rightarrow> run g' evs)"

definition pending :: "game \<Rightarrow> nat" where
  "pending g = length (timeouts g) + frames g"

section \<open>Well-formed engines\<close>

text \<open>
  What holds of every engine the constructor returns and every engine \<open>update\<close>
  leaves behind: the width is a natural number below \<open>2^32\<close> and the grid has that
  many columns; when there is a column, the height is a natural number below \<open>2^32\<close>
  and every column has that many cells, each 0 or 1. (With no column no row is ever
  allocated: a canvas 0 wide and a tiny size give \<open>width = 0\<close> and
  \<open>height = Infinity\<close>.)
\<close>

definition is_nat :: "jsnum \<Rightarrow> bool" where
  "is_nat n = (case n of Fin q \<Rightarrow> 0 \<le> q \<and> q = of_int \<lfloor>q\<rfloor> | _ \<Rightarrow> False)"

definition to_nat :: "jsnum \<Rightarrow> nat" where
  "to_nat n = (case n of Fin q \<Rightarrow> nat \<lfloor>q\<rfloor> | _ \<Rightarrow> 0)"

definition wf_engine :: "engine \<Rightarrow> bool" where
  "wf_engine e =
     (is_nat (width e)
      \<and> length (grid e) = to_nat (width e)
      \<and> to_nat (width e) < 2 ^ 32
      \<and> (grid e = [] \<or> is_nat (height e) \<and> to_nat (height e) < 2 ^ 32)
      \<and> list_all (\<lambda>row. length row = to_nat (height e) \<and> list_all (\<lambda>c. c = dead \<or> c = alive) row)
           (grid e))"

section \<open>The step as specified\<close>

text \<open>
  The step as the specification words it. \<open>lookup\<close> is the state of the cell at any
  integer coordinates under the topology of the engine: wrapped by the floor modulo on
  a torus, dead outside the grid otherwise.
\<close>

definition lookup :: "engine \<Rightarrow> int \<Rightarrow> int \<Rightarrow> nat" where
  "lookup e x y =
     (if truthy (torus e)
      then grid e ! nat (x mod int (to_nat (width e))) ! nat (y mod int (to_nat (height e)))
      else if 0 \<le> x \<and> x < int (to_nat (width e)) \<and> 0 \<le> y \<and> y < int (to_nat (height e))
        then grid e ! nat x ! nat y
      else dead)"

definition live_neighbours :: "engine \<Rightarrow> int \<Rightarrow> int \<Rightarrow> nat" where
  "live_neighbours e x y =
     lookup e (x - 1) (y - 1) + lookup e x (y - 1) + lookup e (x + 1) (y - 1)
     + lookup e (x - 1) y + lookup e (x + 1) y
     + lookup e (x - 1) (y + 1) + lookup e x (y + 1) + lookup e (x + 1) (y + 1)"

definition survives :: "nat \<Rightarrow> nat \<Rightarrow> bool" where
  "survives c n = (if c = alive then n = 2 \<or> n = 3 else c = dead \<and> n = 3)"

definition next_grid :: "engine \<Rightarrow> nat list list" where
  "next_grid e =
     map (\<lambda>i. map (\<lambda>j. if survives (grid e ! i ! j) (live_neighbours e (int i) (int j))
                       then alive else dead)
              [0..<to_nat (height e)])
       [0..<to_nat (width e)]"

definition population :: "nat list list \<Rightarrow> nat" where
  "population g = length (filter (\<lambda>c. c = alive) (concat g))"

text \<open>The coordinates at which \<open>cell\<close> and \<open>lookup\<close> agree.\<close>

definition wraps_well :: "engine \<Rightarrow> int \<Rightarrow> int \<Rightarrow> bool" where
  "wraps_well e x y =
     (truthy (torus e) \<longrightarrow>
        0 < to_nat (width e) \<and> 0 < to_nat (height e)
        \<and> \<not> (x < 0 \<and> int (to_nat (width e)) dvd x)
        \<and> \<not> (y < 0 \<and> int (to_nat (height e)) dvd y))"

text \<open>Bounded, or a torus of at least two columns and two rows.\<close>

definition roomy :: "engine \<Rightarrow> bool" where
  "roomy e = (truthy (torus e) \<longrightarrow> 2 \<le> to_nat (width e) \<and> 2 \<le> to_nat (height e))"

section \<open>Fillers that cannot fail\<close>

text \<open>
  A filler argument that cannot make construction fail: a falsy value, or a function
  that returns on every call.
\<close>

definition harmless :: "'s filler_arg \<Rightarrow> bool" where
  "harmless filler =
     (case filler of
        NotFunction v \<Rightarrow> \<not> truthy v
      | Function f \<Rightarrow> \<forall>i j v s. \<exists>b s'. f i j v s = Inr (b, s'))"

section \<open>The cells that a body marks\<close>

text \<open>The lines that the loop of \<open>loadRle\<close> passes over: empty after \<open>trim\<close>, or a comment.\<close>

definition skipped :: "string \<Rightarrow> bool" where
  "skipped l = (trim l = [] \<or> hd (trim l) = CHR ''#'')"










text \<open>The cursor after a header \<open>x = W, y = H\<close>.\<close>

definition first_cursor :: "nat \<Rightarrow> nat \<Rightarrow> cursor" where
  "first_cursor W H = \<lparr>pat = replicate H (replicate W (Some dead)), runCount = 0, cx = 0, cy = 0\<rparr>"

section \<open>Single flight\<close>

text \<open>
  As long as \<open>stop\<close> is not called, at most one step is pending, and none while the
  handler is unset.
\<close>

definition single_flight :: "game \<Rightarrow> bool" where
  "single_flight g = (pending g \<le> 1 \<and> (handler g = None \<longrightarrow> pending g = 0))"

section \<open>Example inputs\<close>

definition blinker :: engine where
  "blinker = \<lparr>width = Fin 3, height = Fin 3, torus = Boolean False,
     grid = [[0, 0, 0], [1, 1, 1], [0, 0, 0]], cellSize = Fin 10, cellColor = ''#FF0000'',
     framesPerSecond = Number (Fin 5)\<rparr>"

definition no_settings :: settings where
  "no_settings = \<lparr>opt_size = Undefined, opt_color = Undefined, opt_torus = Undefined,
     opt_framesPerSecond = Undefined\<rparr>"

definition glider_text :: string where
  "glider_text = ''x = 3, y = 3\<newline>bo$2bo$3o!''"

definition glider :: pattern where
  "glider = \<lparr>pat_grid = [[Some 0, Some 1, Some 0], [Some 0, Some 0, Some 1], [Some 1, Some 1, Some 1]],
     pat_width = 3, pat_height = 3\<rparr>"

text \<open>Engines on a torus: the blinker, a single cell, and a single row.\<close>

definition torus_blinker :: engine where
  "torus_blinker = blinker\<lparr>torus := Boolean True\<rparr>"

definition torus_dot :: engine where
  "torus_dot = \<lparr>width = Fin 1, height = Fin 1, torus = Boolean True, grid = [[1]],
     cellSize = Fin 10, cellColor = ''#FF0000'', framesPerSecond = Number (Fin 5)\<rparr>"

definition torus_row :: engine where
  "torus_row = \<lparr>width = Fin 3, height = Fin 1, torus = Boolean True, grid = [[0], [1], [0]],
     cellSize = Fin 10, cellColor = ''#FF0000'', framesPerSecond = Number (Fin 5)\<rparr>"

section \<open>Rounding to a double\<close>

lemma round_half_even_of_int: "round_half_even (of_int n) = n"
  by (simp add: round_half_even_def)

lemma round_half_even_nonneg: "0 \<le> q \<Longrightarrow> 0 \<le> round_half_even q"
  by (simp add: round_half_even_def)

lemma ulp_pos: "0 < ulp a"
  by (simp add: ulp_def)

lemma to_double_nonneg:
  assumes "0 \<le> q"
  shows "(\<exists>r. 0 \<le> r \<and> to_double q = Fin r) \<or> to_double q = PosInf"
proof -
  have "0 \<le> \<bar>q\<bar> / ulp \<bar>q\<bar>" using ulp_pos[of "\<bar>q\<bar>"] by simp
  then have "0 \<le> rat_of_int (round_half_even (\<bar>q\<bar> / ulp \<bar>q\<bar>)) * ulp \<bar>q\<bar>"
    using round_half_even_nonneg ulp_pos[of "\<bar>q\<bar>"] by simp
  moreover have "0 \<le> sgn q" using assms by (simp add: sgn_if)
  ultimately have "0 \<le> sgn q * (rat_of_int (round_half_even (\<bar>q\<bar> / ulp \<bar>q\<bar>)) * ulp \<bar>q\<bar>)"
    by (simp only: mult_nonneg_nonneg)
  then show ?thesis using assms unfolding to_double_def by (auto simp: not_less)
qed

text \<open>The exponent of a number that is at least 1.\<close>

lemma expo_ge_1:
  "1 \<le> a \<Longrightarrow> a < 2 ^ n \<Longrightarrow>
     0 \<le> expo n a \<and> 2 ^ nat (expo n a) \<le> a \<and> a < 2 * 2 ^ nat (expo n a)"
proof (induction n arbitrary: a)
  case 0
  then show ?case by simp
next
  case (Suc n)
  show ?case
  proof (cases "2 \<le> a")
    case True
    with Suc.prems have "1 \<le> a / 2" "a / 2 < 2 ^ n" by simp_all
    from Suc.IH[OF this] have e: "0 \<le> expo n (a / 2)"
      and lo: "2 ^ nat (expo n (a / 2)) \<le> a / 2" and hi: "a / 2 < 2 * 2 ^ nat (expo n (a / 2))"
      by simp_all
    from e have n: "nat (expo n (a / 2) + 1) = Suc (nat (expo n (a / 2)))" by simp
    from True e lo hi show ?thesis by (simp add: n)
  next
    case False
    with Suc.prems show ?thesis by simp
  qed
qed

lemma to_double_of_nat:
  assumes "n < 2 ^ 53"
  shows "to_double (of_nat n) = Fin (of_nat n)"
proof (cases "n = 0")
  case True
  then show ?thesis by (simp add: to_double_def)
next
  case False
  define a where "a = rat_of_nat n"
  define k where "k = nat (expo 1100 a)"
  have a1: "1 \<le> a" using False by (simp add: a_def)
  have "rat_of_nat n < rat_of_nat (2 ^ 53)" using assms by (simp only: of_nat_less_iff)
  then have a53: "a < 2 ^ 53" by (simp add: a_def)
  also have "(2::rat) ^ 53 < 2 ^ 1100" by simp
  finally have "a < 2 ^ 1100" .
  from expo_ge_1[OF a1 this] have e: "0 \<le> expo 1100 a" and lo: "2 ^ k \<le> a"
    by (simp_all add: k_def)
  from lo a53 have "(2::rat) ^ k < 2 ^ 53" by (rule le_less_trans)
  then have k: "k < 53" by (simp only: power_strict_increasing_iff one_less_numeral_iff semiring_norm)
  from e have ex: "expo 1100 a = int k" by (simp add: k_def)
  have "max (int k) (- 1022) - 52 = - int (52 - k)" using k by simp
  then have "ulp a = 2 powi (- int (52 - k))" by (simp only: ulp_def ex)
  then have u: "ulp a = 1 / 2 ^ (52 - k)"
    by (simp only: power_int_minus power_int_of_nat inverse_eq_divide)
  have "a / ulp a = a * 2 ^ (52 - k)" by (simp add: u)
  also have "\<dots> = rat_of_int (int n * 2 ^ (52 - k))" by (simp add: a_def)
  finally have r: "round_half_even (a / ulp a) = int n * 2 ^ (52 - k)"
    by (simp only: round_half_even_of_int)
  have "rat_of_int (round_half_even (a / ulp a)) = a * 2 ^ (52 - k)"
    unfolding r by (simp add: a_def)
  then have rt: "rat_of_int (round_half_even (a / ulp a)) * ulp a = a"
    by (simp add: u)
  have pos: "\<bar>a\<bar> = a" "sgn a = 1" "0 < a" using a1 by (simp_all add: sgn_if)
  have "\<not> 2 ^ 1024 \<le> a" using a53 by simp
  moreover have "\<not> a \<le> 1 / 2 ^ 1075"
  proof
    assume "a \<le> 1 / 2 ^ 1075"
    also have "\<dots> < (1::rat)" by simp
    finally show False using a1 by simp
  qed
  ultimately have "to_double a = Fin a" unfolding to_double_def pos rt by simp
  then show ?thesis by (simp add: a_def)
qed

lemma to_double_numeral:
  "numeral k < (2::nat) ^ 53 \<Longrightarrow> to_double (numeral k) = Fin (numeral k)"
  using to_double_of_nat[of "numeral k"] by simp

lemma to_double_3: "to_double 3 = Fin 3"
  by (simp add: to_double_numeral)

lemma to_double_2: "to_double 2 = Fin 2"
  by (simp add: to_double_numeral)

lemma to_double_0: "to_double 0 = Fin 0"
  by (simp add: to_double_def)

lemma expo_numeral:
  "expo (numeral k) a =
     (if 2 \<le> a then expo (pred_numeral k) (a / 2) + 1
      else if a < 1 then expo (pred_numeral k) (a * 2) - 1
      else 0)"
  by (simp add: numeral_eq_Suc)

text \<open>
  A quotient that is rounded: 9 by the double nearest to 0.3, which lies below 0.3.
  The exact quotient is a little more than 30; the double is 30.
\<close>

lemma to_double_rounds:
  "to_double (9 / (5404319552844595 / 18014398509481984)) = Fin 30"
proof -
  define q :: rat where "q = 162129586585337856 / 5404319552844595"
  have e: "expo 1100 q = 4" by (simp add: q_def expo_numeral)
  have u: "ulp q = 1 / 2 ^ 48" by (simp add: ulp_def e power_int_minus_left)
  have f: "\<lfloor>q / ulp q\<rfloor> = 8444249301319680"
    unfolding u by (rule floor_unique) (simp_all add: q_def)
  have h: "q / ulp q - rat_of_int 8444249301319680 < 1 / 2"
    unfolding u by (simp add: q_def)
  have r: "round_half_even (q / ulp q) = 8444249301319680"
    unfolding round_half_even_def by (simp only: f h if_True)
  have v: "rat_of_int (round_half_even (q / ulp q)) * ulp q = 30"
    unfolding r unfolding u by simp
  have p: "\<bar>q\<bar> = q" "sgn q = 1" by (simp_all add: q_def sgn_if)
  have "\<not> 2 ^ 1024 \<le> q" "\<not> q \<le> 1 / 2 ^ 1075" by (simp_all add: q_def)
  then have "to_double q = Fin 30"
    unfolding to_double_def p v by simp
  then show ?thesis by (simp add: q_def)
qed

lemma js_div_rounds:
  "js_div (Fin (of_nat 9)) (Fin (5404319552844595 / 18014398509481984)) = Fin 30"
  using to_double_rounds by simp

section \<open>Arrays and well-formed engines\<close>

lemma dead_neq_alive: "dead \<noteq> alive"
  by (simp add: dead_def alive_def)

lemma integral_nonneg:
  fixes q :: rat
  assumes "0 \<le> q" "q = of_int \<lfloor>q\<rfloor>"
  shows "q = of_nat (nat \<lfloor>q\<rfloor>)"
proof -
  have "0 \<le> \<lfloor>q\<rfloor>" using assms(1) by simp
  then have "(of_nat (nat \<lfloor>q\<rfloor>) :: rat) = of_int \<lfloor>q\<rfloor>" by simp
  with assms(2) show ?thesis by simp
qed

lemma new_Array_Inr: "new_Array n = Inr w \<Longrightarrow> n = Fin (of_nat w) \<and> w < 2 ^ 32"
proof (cases n)
  case (Fin q)
  assume a: "new_Array n = Inr w"
  from a Fin have q: "0 \<le> q" "q = of_int \<lfloor>q\<rfloor>" "q < 2 ^ 32" and w: "w = nat \<lfloor>q\<rfloor>"
    by (auto split: if_splits)
  have eq: "q = of_nat w" using integral_nonneg[OF q(1,2)] w by simp
  have "(of_nat w :: rat) < of_nat (2 ^ 32)" using q(3) eq by simp
  then have "w < 2 ^ 32" by (simp only: of_nat_less_iff)
  with eq Fin show ?thesis by simp
qed auto

lemma new_Array_of_nat: "new_Array (Fin (of_nat k)) = (if k < 2 ^ 32 then Inr k else Inl (RangeError ''Invalid array length''))"
proof -
  have "(of_nat k :: rat) < 2 ^ 32 \<longleftrightarrow> k < 2 ^ 32"
    by (metis of_nat_less_iff of_nat_numeral of_nat_power)
  then show ?thesis by simp
qed

lemma is_nat_iff: "is_nat n \<longleftrightarrow> (\<exists>k::nat. n = Fin (of_nat k))"
proof (cases n)
  case (Fin q)
  show ?thesis
  proof
    assume "is_nat n"
    with Fin have "0 \<le> q" "q = of_int \<lfloor>q\<rfloor>" by (auto simp: is_nat_def)
    from integral_nonneg[OF this] Fin show "\<exists>k::nat. n = Fin (of_nat k)" by blast
  next
    assume "\<exists>k::nat. n = Fin (of_nat k)"
    then show "is_nat n" by (auto simp: is_nat_def)
  qed
qed (auto simp: is_nat_def)

lemma to_nat_of_nat [simp]: "to_nat (Fin (of_nat k)) = k"
  by (simp add: to_nat_def)

lemma index_of_int:
  "index xs (Fin (of_int k)) = (if 0 \<le> k \<and> nat k < length xs then Some (xs ! nat k) else None)"
  by simp

lemma index_of_nat [simp]:
  "index xs (Fin (of_nat k)) = (if k < length xs then Some (xs ! k) else None)"
  by simp

lemma wf_engine_empty:
  assumes "wf_engine e" "grid e = []"
  shows "width e = Fin 0"
proof -
  from assms(1) obtain W where "width e = Fin (of_nat W)" "length (grid e) = W"
    unfolding wf_engine_def is_nat_iff by auto
  with assms(2) show ?thesis by simp
qed

lemma wf_engineD:
  assumes "wf_engine e" "grid e \<noteq> []"
  shows "\<exists>W H. width e = Fin (of_nat W) \<and> height e = Fin (of_nat H) \<and> length (grid e) = W
    \<and> W < 2 ^ 32 \<and> H < 2 ^ 32
    \<and> (\<forall>i<W. length (grid e ! i) = H)
    \<and> (\<forall>i<W. \<forall>j<H. grid e ! i ! j = dead \<or> grid e ! i ! j = alive)"
proof -
  from assms obtain W H where wh: "width e = Fin (of_nat W)" "height e = Fin (of_nat H)"
    unfolding wf_engine_def is_nat_iff by blast
  from assms wh have lim: "W < 2 ^ 32" "H < 2 ^ 32" by (simp_all add: wf_engine_def)
  from assms wh have len: "length (grid e) = W"
    and rows: "\<forall>row \<in> set (grid e). length row = H \<and> (\<forall>c \<in> set row. c = dead \<or> c = alive)"
    by (simp_all add: wf_engine_def list_all_iff)
  have "\<forall>i<W. length (grid e ! i) = H" using len rows by simp
  moreover have "\<forall>i<W. \<forall>j<H. grid e ! i ! j = dead \<or> grid e ! i ! j = alive"
    using len rows by (metis nth_mem)
  ultimately show ?thesis using wh len lim by blast
qed

lemma read2_inside:
  assumes "0 \<le> x" "nat x < length g" "0 \<le> y" "nat y < length (g ! nat x)"
  shows "read2 g (Fin (of_int x)) (Fin (of_int y)) = Inr (Some (g ! nat x ! nat y))"
  using assms by (simp add: read2_def)

lemma cell_bounded:
  assumes wf: "wf_engine e" and b: "\<not> truthy (torus e)"
  shows "cell e (Fin a) (Fin b) =
    (if \<lfloor>a + 1 / 2\<rfloor> < 0 \<or> int (to_nat (width e)) \<le> \<lfloor>a + 1 / 2\<rfloor>
        \<or> \<lfloor>b + 1 / 2\<rfloor> < 0 \<or> int (to_nat (height e)) \<le> \<lfloor>b + 1 / 2\<rfloor>
     then Inr (Some dead)
     else Inr (Some (grid e ! nat \<lfloor>a + 1 / 2\<rfloor> ! nat \<lfloor>b + 1 / 2\<rfloor>)))"
proof (cases "grid e = []")
  case True
  from wf_engine_empty[OF wf True] have w: "width e = Fin 0" .
  define x where "x = \<lfloor>a + 1 / 2\<rfloor>"
  have "x < 0 \<or> 0 \<le> x" by auto
  then have "js_lt (Fin (of_int x)) (Fin 0) \<or> js_le (Fin 0) (Fin (of_int x))" by simp
  then have "cell e (Fin a) (Fin b) = Inr (Some dead)"
    using b unfolding cell_def Let_def Math_round.simps x_def[symmetric] w by auto
  moreover have "x < 0 \<or> int (to_nat (width e)) \<le> x" by (auto simp: w to_nat_def)
  ultimately show ?thesis unfolding x_def by auto
next
  case False
  from wf_engineD[OF wf False] obtain W H where wh: "width e = Fin (of_nat W)" "height e = Fin (of_nat H)"
    and len: "length (grid e) = W" and rows: "\<And>i. i < W \<Longrightarrow> length (grid e ! i) = H"
    by blast
  define x where "x = \<lfloor>a + 1 / 2\<rfloor>"
  define y where "y = \<lfloor>b + 1 / 2\<rfloor>"
  have lt: "((of_int x :: rat) < 0) = (x < 0)" "((of_int y :: rat) < 0) = (y < 0)" by simp_all
  have le: "((of_nat W :: rat) \<le> of_int x) = (int W \<le> x)" "((of_nat H :: rat) \<le> of_int y) = (int H \<le> y)"
    by (metis of_int_le_iff of_int_of_nat_eq)+
  show ?thesis
  proof (cases "x < 0 \<or> int W \<le> x \<or> y < 0 \<or> int H \<le> y")
    case True
    then show ?thesis using b
      unfolding cell_def Let_def Math_round.simps x_def[symmetric] y_def[symmetric] wh
      by (simp add: lt le del: of_int_less_0_iff)
  next
    case F: False
    then have in1: "0 \<le> x" "nat x < W" "0 \<le> y" "nat y < H" by auto
    have "read2 (grid e) (Fin (of_int x)) (Fin (of_int y)) = Inr (Some (grid e ! nat x ! nat y))"
      using in1 len rows[of "nat x"] by (intro read2_inside) simp_all
    then show ?thesis using b F
      unfolding cell_def Let_def Math_round.simps x_def[symmetric] y_def[symmetric] wh
      by (simp add: lt le)
  qed
qed

lemma cell_nonfinite: "\<not> isFinite i \<or> \<not> isFinite j \<Longrightarrow> cell e i j = Inr (Some dead)"
  by (cases i; cases j; simp add: cell_def)

lemma bindE_Inr:
  "bindE m f = Inr r \<longleftrightarrow> (\<exists>v. m = Inr v \<and> f v = Inr r)"
  by (cases m) (simp_all add: bindE_def)

lemma fillRow_shape:
  "fillRow f v i js s = Inr (row, s') \<Longrightarrow>
     length row = length js \<and> list_all (\<lambda>c. c = dead \<or> c = alive) row"
proof (induction js arbitrary: s row)
  case Nil
  then show ?case by simp
next
  case (Cons j js)
  from Cons.prems obtain b s1 row1 where
    "fillRow f v i js s1 = Inr (row1, s')" "row = (if b then alive else dead) # row1"
    by (auto simp: bindE_Inr)
  with Cons.IH[of s1 row1] show ?case by simp
qed

lemma createRow_shape:
  assumes "createRow filler v i s = Inr (row, s')"
  shows "\<exists>h. snd v = Fin (of_nat h) \<and> h < 2 ^ 32 \<and> length row = h
    \<and> list_all (\<lambda>c. c = dead \<or> c = alive) row"
proof -
  from assms obtain h where h: "new_Array (snd v) = Inr h"
    and r: "(case filler of Function f \<Rightarrow> fillRow f v i [0..<h] s
             | NotFunction _ \<Rightarrow> Inr (replicate h dead, s)) = Inr (row, s')"
    by (auto simp: createRow_def bindE_Inr)
  have "length row = h \<and> list_all (\<lambda>c. c = dead \<or> c = alive) row"
  proof (cases filler)
    case (Function f)
    with r fillRow_shape[of f v i "[0..<h]" s row s'] show ?thesis by simp
  next
    case (NotFunction x)
    with r show ?thesis by (auto simp: list_all_iff)
  qed
  with new_Array_Inr[OF h] show ?thesis by blast
qed

lemma createRows_shape:
  "createRows filler v is s = Inr (g, s') \<Longrightarrow>
     length g = length is \<and>
     (\<forall>row \<in> set g. \<exists>h. snd v = Fin (of_nat h) \<and> h < 2 ^ 32 \<and> length row = h
          \<and> list_all (\<lambda>c. c = dead \<or> c = alive) row)"
proof (induction "is" arbitrary: s g)
  case Nil
  then show ?case by simp
next
  case (Cons i "is")
  from Cons.prems obtain row s1 g1 where
    row: "createRow filler v i s = Inr (row, s1)"
    and rest: "createRows filler v is s1 = Inr (g1, s')" and g: "g = row # g1"
    by (auto simp: bindE_Inr)
  from Cons.IH[OF rest] createRow_shape[OF row] g show ?case by auto
qed

lemma createGrid_shape:
  assumes "createGrid e filler s = Inr (e', s')"
  shows "wf_engine e' \<and> width e' = width e \<and> height e' = height e \<and> torus e' = torus e"
proof -
  from assms(1) obtain w g where w: "new_Array (width e) = Inr w"
    and g: "createRows filler (width e, height e) [0..<w] s = Inr (g, s')"
    and e': "e' = e\<lparr>grid := g\<rparr>"
    by (auto simp: createGrid_def bindE_Inr)
  from new_Array_Inr[OF w] have we: "width e = Fin (of_nat w)" "w < 2 ^ 32" by simp_all
  from createRows_shape[OF g]
  have len: "length g = w"
    and rows: "\<forall>row \<in> set g. \<exists>h. height e = Fin (of_nat h) \<and> h < 2 ^ 32 \<and> length row = h
          \<and> list_all (\<lambda>c. c = dead \<or> c = alive) row"
    by simp_all
  have "g = [] \<or> is_nat (height e) \<and> to_nat (height e) < 2 ^ 32"
  proof (cases g)
    case Nil
    then show ?thesis by simp
  next
    case (Cons row g')
    with rows obtain h where "height e = Fin (of_nat h)" "h < 2 ^ 32" by auto
    then show ?thesis by (auto simp: is_nat_iff)
  qed
  moreover have "\<forall>row \<in> set g. length row = to_nat (height e)
      \<and> list_all (\<lambda>c. c = dead \<or> c = alive) row"
    using rows by auto
  ultimately show ?thesis using we len e' by (simp add: wf_engine_def is_nat_iff list_all_iff)
qed


text \<open>What the constructor has checked when it reaches \<open>#createGrid\<close>.\<close>

lemma GameOfLife_Inr:
  assumes "GameOfLife canvas filler opts s = Inr (e, s')"
  shows "\<exists>cw ch n col. canvas = HTMLCanvasElement cw ch
    \<and> dflt (opt_size opts) (Number (Fin 10)) = Number n \<and> isFinite n \<and> \<not> js_lt n (Fin 0)
    \<and> createGrid
        \<lparr>width = Math_ceil (js_div (Fin (of_nat cw)) n),
         height = Math_ceil (js_div (Fin (of_nat ch)) n),
         torus = dflt (opt_torus opts) (Boolean False), grid = [], cellSize = n,
         cellColor = col,
         framesPerSecond = dflt (opt_framesPerSecond opts) (Number (Fin 5))\<rparr> filler s
       = Inr (e, s')"
  using assms unfolding GameOfLife_def Let_def
  by (auto split: canvas_arg.splits jsval.splits if_splits)

lemma GameOfLife_wf:
  assumes "GameOfLife canvas filler opts s = Inr (e, s')"
  shows "wf_engine e"
proof -
  from GameOfLife_Inr[OF assms] obtain e0 where "createGrid e0 filler s = Inr (e, s')" by blast
  from createGrid_shape[OF this] show ?thesis by simp
qed



text \<open>
  Claim C3. In bounded mode \<open>cell\<close> raises nothing and returns a cell state on every
  numeric input; it returns dead when a coordinate is NaN or infinite, and when the
  rounded coordinate pair lies outside \<open>[0, width) \<times> [0, height)\<close>.
\<close>

theorem cell_bounded_total:
  assumes "wf_engine e" and "\<not> truthy (torus e)"
  shows "(\<exists>v. cell e i j = Inr (Some v) \<and> (v = dead \<or> v = alive))
    \<and> (\<not> isFinite i \<or> \<not> isFinite j \<longrightarrow> cell e i j = Inr (Some dead))
    \<and> (\<forall>a b. i = Fin a \<and> j = Fin b
          \<and> (\<lfloor>a + 1 / 2\<rfloor> < 0 \<or> int (to_nat (width e)) \<le> \<lfloor>a + 1 / 2\<rfloor>
             \<or> \<lfloor>b + 1 / 2\<rfloor> < 0 \<or> int (to_nat (height e)) \<le> \<lfloor>b + 1 / 2\<rfloor>)
          \<longrightarrow> cell e i j = Inr (Some dead))"
proof (intro conjI allI impI)
  show "\<exists>v. cell e i j = Inr (Some v) \<and> (v = dead \<or> v = alive)"
  proof (cases "isFinite i \<and> isFinite j")
    case False
    then show ?thesis using cell_nonfinite[of i j e] by auto
  next
    case True
    then obtain a b where ij: "i = Fin a" "j = Fin b" by (cases i; cases j; simp)
    show ?thesis
    proof (cases "grid e = []")
      case True
      from wf_engine_empty[OF assms(1) True] have "to_nat (width e) = 0" by (simp add: to_nat_def)
      then have "\<lfloor>a + 1 / 2\<rfloor> < 0 \<or> int (to_nat (width e)) \<le> \<lfloor>a + 1 / 2\<rfloor>" by linarith
      then show ?thesis unfolding ij cell_bounded[OF assms] by auto
    next
      case G: False
      from wf_engineD[OF assms(1) G] obtain W H where wh: "width e = Fin (of_nat W)" "height e = Fin (of_nat H)"
        and cells: "\<forall>i<W. \<forall>j<H. grid e ! i ! j = dead \<or> grid e ! i ! j = alive"
        by blast
      show ?thesis
      proof (cases "\<lfloor>a + 1 / 2\<rfloor> < 0 \<or> int W \<le> \<lfloor>a + 1 / 2\<rfloor> \<or> \<lfloor>b + 1 / 2\<rfloor> < 0 \<or> int H \<le> \<lfloor>b + 1 / 2\<rfloor>")
        case True
        then show ?thesis unfolding ij cell_bounded[OF assms] wh by simp
      next
        case False
        then have "nat \<lfloor>a + 1 / 2\<rfloor> < W" "nat \<lfloor>b + 1 / 2\<rfloor> < H" by linarith+
        with cells have "grid e ! nat \<lfloor>a + 1 / 2\<rfloor> ! nat \<lfloor>b + 1 / 2\<rfloor> = dead
            \<or> grid e ! nat \<lfloor>a + 1 / 2\<rfloor> ! nat \<lfloor>b + 1 / 2\<rfloor> = alive" by blast
        with False show ?thesis unfolding ij cell_bounded[OF assms] wh by simp
      qed
    qed
  qed
next
  assume "\<not> isFinite i \<or> \<not> isFinite j"
  then show "cell e i j = Inr (Some dead)" by (rule cell_nonfinite)
next
  fix a b
  assume "i = Fin a \<and> j = Fin b
          \<and> (\<lfloor>a + 1 / 2\<rfloor> < 0 \<or> int (to_nat (width e)) \<le> \<lfloor>a + 1 / 2\<rfloor>
             \<or> \<lfloor>b + 1 / 2\<rfloor> < 0 \<or> int (to_nat (height e)) \<le> \<lfloor>b + 1 / 2\<rfloor>)"
  then show "cell e i j = Inr (Some dead)" using cell_bounded[OF assms, of a b] by auto
qed

lemma wf_blinker: "wf_engine blinker"
  by (simp add: wf_engine_def blinker_def is_nat_def to_nat_def dead_def alive_def)

theorem cell_bounded_total_witness:
  "wf_engine blinker \<and> \<not> truthy (torus blinker)
   \<and> cell blinker (Fin (- 1)) (Fin 1) = Inr (Some dead)
   \<and> cell blinker (Fin 1) (Fin 3) = Inr (Some dead)
   \<and> cell blinker NaN (Fin 1) = Inr (Some dead)
   \<and> cell blinker (Fin 1) NegInf = Inr (Some dead)"
proof -
  have b: "\<not> truthy (torus blinker)" by (simp add: blinker_def)
  have w: "to_nat (width blinker) = 3" "to_nat (height blinker) = 3"
    by (simp_all add: blinker_def to_nat_def)
  show ?thesis
    using cell_bounded_total[OF wf_blinker b, of "Fin (- 1)" "Fin 1"]
      cell_bounded_total[OF wf_blinker b, of "Fin 1" "Fin 3"]
      cell_bounded_total[OF wf_blinker b, of NaN "Fin 1"]
      cell_bounded_total[OF wf_blinker b, of "Fin 1" NegInf]
      wf_blinker b
    by (simp add: w)
qed

section \<open>Coordinates on the torus\<close>

lemma Math_round_of_int [simp]: "Math_round (Fin (of_int x)) = Fin (of_int x)"
proof -
  have "\<lfloor>rat_of_int x + 1 / 2\<rfloor> = x" by linarith
  then show ?thesis by simp
qed

lemma trunc_divide:
  assumes "0 < n"
  shows "trunc (rat_of_int x / rat_of_int n) = (if x < 0 then - ((- x) div n) else x div n)"
proof (cases "x < 0")
  case True
  then have "rat_of_int x / rat_of_int n < 0" using assms by (simp add: divide_neg_pos)
  then have "trunc (rat_of_int x / rat_of_int n) = \<lceil>rat_of_int x / rat_of_int n\<rceil>"
    by (simp add: trunc_def)
  also have "\<dots> = - ((- x) div n)" by (simp add: ceiling_divide_eq_div)
  finally show ?thesis using True by simp
next
  case False
  then have "\<not> rat_of_int x / rat_of_int n < 0" using assms by (simp add: not_less)
  then have "trunc (rat_of_int x / rat_of_int n) = \<lfloor>rat_of_int x / rat_of_int n\<rfloor>"
    by (simp add: trunc_def)
  also have "\<dots> = x div n" by (simp add: floor_divide_of_int_eq)
  finally show ?thesis using False by simp
qed

lemma rem_identity:
  fixes x n :: int
  shows "x - n * (if x < 0 then - ((- x) div n) else x div n)
      = (if x < 0 then - ((- x) mod n) else x mod n)"
proof -
  have m: "(- x) - n * ((- x) div n) = (- x) mod n" by (rule minus_mult_div_eq_mod)
  have p: "x - n * (x div n) = x mod n" by (rule minus_mult_div_eq_mod)
  show ?thesis
  proof (cases "x < 0")
    case True
    have "x - n * (- ((- x) div n)) = - ((- x) - n * ((- x) div n))" by (simp add: algebra_simps)
    with m True show ?thesis by simp
  next
    case False
    with p show ?thesis by simp
  qed
qed

lemma js_rem_int:
  assumes "0 < n"
  shows "js_rem (Fin (of_int x)) (Fin (of_int n))
    = Fin (of_int (if x < 0 then - ((- x) mod n) else x mod n))"
proof -
  have "rat_of_int x - rat_of_int n * rat_of_int (trunc (rat_of_int x / rat_of_int n))
      = rat_of_int (x - n * (if x < 0 then - ((- x) div n) else x div n))"
    unfolding trunc_divide[OF assms] by (simp only: of_int_diff of_int_mult)
  then have "rat_of_int x - rat_of_int n * rat_of_int (trunc (rat_of_int x / rat_of_int n))
      = rat_of_int (if x < 0 then - ((- x) mod n) else x mod n)"
    by (simp only: rem_identity)
  moreover have "rat_of_int n \<noteq> 0" using assms by simp
  ultimately show ?thesis by (simp only: js_rem.simps if_False)
qed

text \<open>
  The index that the toroidal branch of \<open>cell\<close> computes from an integer coordinate
  \<open>x\<close> and a dimension \<open>n > 0\<close>: \<open>x mod n\<close>, but \<open>n\<close> itself when \<open>x\<close> is a negative
  multiple of \<open>n\<close>, since \<open>x % n\<close> is then 0 and \<open>n + 0\<close> is not reduced.
\<close>

lemma torus_index:
  assumes "0 < n"
  shows "(if js_lt (Fin (of_int x)) (Fin 0)
          then js_add (Fin (of_nat n)) (js_rem (Fin (of_int x)) (Fin (of_nat n)))
          else js_rem (Fin (of_int x)) (Fin (of_nat n)))
     = Fin (of_int (if x < 0 \<and> int n dvd x then int n else x mod int n))"
proof -
  have n: "rat_of_nat n = rat_of_int (int n)" by simp
  have pos: "0 < int n" using assms by simp
  show ?thesis
  proof (cases "x < 0")
    case False
    then show ?thesis unfolding n js_rem_int[OF pos] by simp
  next
    case True
    have "int n + - ((- x) mod int n) = (if int n dvd x then int n else x mod int n)"
    proof (cases "int n dvd x")
      case True
      then have "(- x) mod int n = 0" by simp
      with True show ?thesis by simp
    next
      case False
      then have "x mod int n \<noteq> 0" by (simp add: dvd_eq_mod_eq_0)
      then have "(- x) mod int n = int n - x mod int n" by (simp add: zmod_zminus1_eq_if)
      with False show ?thesis by simp
    qed
    then have "rat_of_int (int n) + rat_of_int (- ((- x) mod int n))
        = rat_of_int (if int n dvd x then int n else x mod int n)"
      by (simp only: of_int_add[symmetric])
    with True show ?thesis unfolding n js_rem_int[OF pos] by simp
  qed
qed

lemma nat_mod_less: "0 < n \<Longrightarrow> 0 \<le> x mod int n \<and> nat (x mod int n) < n"
proof -
  assume "0 < n"
  then have "0 \<le> x mod int n" "x mod int n < int n" by simp_all
  then show ?thesis by linarith
qed

lemma cell_torus:
  assumes wf: "wf_engine e" and t: "truthy (torus e)"
    and W: "0 < to_nat (width e)" and H: "0 < to_nat (height e)"
  shows "cell e (Fin (of_int x)) (Fin (of_int y)) =
    (if x < 0 \<and> int (to_nat (width e)) dvd x
       then Inl (TypeError ''Cannot read properties of undefined'')
     else if y < 0 \<and> int (to_nat (height e)) dvd y then Inr None
     else Inr (Some (grid e ! nat (x mod int (to_nat (width e))) ! nat (y mod int (to_nat (height e))))))"
proof -
  from wf W have "grid e \<noteq> []" by (auto simp: wf_engine_def)
  from wf_engineD[OF wf this] obtain w h where wh: "width e = Fin (of_nat w)" "height e = Fin (of_nat h)"
    and len: "length (grid e) = w" and rows: "\<forall>i<w. length (grid e ! i) = h"
    by blast
  from W H wh have pos: "0 < w" "0 < h" by simp_all
  define i where "i = (if x < 0 \<and> int w dvd x then int w else x mod int w)"
  define j where "j = (if y < 0 \<and> int h dvd y then int h else y mod int h)"
  have c: "cell e (Fin (of_int x)) (Fin (of_int y)) = read2 (grid e) (Fin (of_int i)) (Fin (of_int j))"
    using t unfolding cell_def Let_def Math_round_of_int wh torus_index[OF pos(1)] torus_index[OF pos(2)]
      i_def j_def by simp
  show ?thesis
  proof (cases "x < 0 \<and> int w dvd x")
    case True
    then have "i = int w" by (simp add: i_def)
    then have "index (grid e) (Fin (of_int i)) = None" using len by simp
    with True c wh show ?thesis by (simp add: read2_def)
  next
    case False
    then have i: "i = x mod int w" by (auto simp: i_def)
    with nat_mod_less[OF pos(1), of x] have ir: "0 \<le> i" "nat i < w" by simp_all
    then have gi: "index (grid e) (Fin (of_int i)) = Some (grid e ! nat i)" using len by simp
    from rows ir have lr: "length (grid e ! nat i) = h" by simp
    show ?thesis
    proof (cases "y < 0 \<and> int h dvd y")
      case True
      then have "j = int h" by (simp add: j_def)
      then have "index (grid e ! nat i) (Fin (of_int j)) = None" using lr by simp
      with True False c wh gi show ?thesis by (simp add: read2_def)
    next
      case F2: False
      then have j: "j = y mod int h" by (auto simp: j_def)
      with nat_mod_less[OF pos(2), of y] have jr: "0 \<le> j" "nat j < h" by simp_all
      then have "index (grid e ! nat i) (Fin (of_int j)) = Some (grid e ! nat i ! nat j)"
        using lr by simp
      with False F2 c wh gi i j show ?thesis by (simp add: read2_def)
    qed
  qed
qed

lemma cell_torus_wrapped:
  assumes wf: "wf_engine e" and t: "truthy (torus e)"
    and W: "0 < to_nat (width e)" and H: "0 < to_nat (height e)"
    and x: "\<not> (x < 0 \<and> int (to_nat (width e)) dvd x)"
    and y: "\<not> (y < 0 \<and> int (to_nat (height e)) dvd y)"
  shows "cell e (Fin (of_int x)) (Fin (of_int y))
    = cell e (Fin (of_int (x mod int (to_nat (width e))))) (Fin (of_int (y mod int (to_nat (height e)))))"
proof -
  have m: "\<not> (x mod int (to_nat (width e)) < 0)" "\<not> (y mod int (to_nat (height e)) < 0)"
    using nat_mod_less[OF W, of x] nat_mod_less[OF H, of y] by simp_all
  show ?thesis
    unfolding cell_torus[OF wf t W H] using x y m by auto
qed

text \<open>
  Claim C2. On a torus with at least one column and one row, \<open>cell\<close> at integer
  coordinates equals \<open>cell\<close> at the coordinates reduced by the floor modulo, except
  where a coordinate is a negative multiple of its dimension: there \<open>x % W\<close> is 0, the
  index is \<open>W + 0\<close>, and the read leaves the grid. It raises a TypeError for the
  column and returns \<open>undefined\<close> for the row: on the 3 by 3 torus \<open>cell(-3, 1)\<close>
  raises where \<open>cell(0, 1)\<close> is dead, and \<open>cell(1, -3)\<close> is \<open>undefined\<close> where
  \<open>cell(1, 0)\<close> is alive.
\<close>

theorem cell_torus_wrap:
  "(wf_engine e \<and> truthy (torus e) \<and> 0 < to_nat (width e) \<and> 0 < to_nat (height e) \<longrightarrow>
      cell e (Fin (of_int x)) (Fin (of_int y)) =
        (if x < 0 \<and> int (to_nat (width e)) dvd x
           then Inl (TypeError ''Cannot read properties of undefined'')
         else if y < 0 \<and> int (to_nat (height e)) dvd y then Inr None
         else cell e (Fin (of_int (x mod int (to_nat (width e)))))
                (Fin (of_int (y mod int (to_nat (height e)))))))
   \<and> cell torus_blinker (Fin (- 3)) (Fin 1) = Inl (TypeError ''Cannot read properties of undefined'')
   \<and> cell torus_blinker (Fin 0) (Fin 1) = Inr (Some dead)
   \<and> cell torus_blinker (Fin 1) (Fin (- 3)) = Inr None
   \<and> cell torus_blinker (Fin 1) (Fin 0) = Inr (Some alive)"
proof (intro conjI impI)
  assume a: "wf_engine e \<and> truthy (torus e) \<and> 0 < to_nat (width e) \<and> 0 < to_nat (height e)"
  then have wf: "wf_engine e" and t: "truthy (torus e)"
    and W: "0 < to_nat (width e)" and H: "0 < to_nat (height e)" by simp_all
  show "cell e (Fin (of_int x)) (Fin (of_int y)) =
        (if x < 0 \<and> int (to_nat (width e)) dvd x
           then Inl (TypeError ''Cannot read properties of undefined'')
         else if y < 0 \<and> int (to_nat (height e)) dvd y then Inr None
         else cell e (Fin (of_int (x mod int (to_nat (width e)))))
                (Fin (of_int (y mod int (to_nat (height e))))))"
  proof (cases "(x < 0 \<and> int (to_nat (width e)) dvd x) \<or> (y < 0 \<and> int (to_nat (height e)) dvd y)")
    case True
    then show ?thesis unfolding cell_torus[OF wf t W H, of x y] by auto
  next
    case False
    then have "\<not> (x < 0 \<and> int (to_nat (width e)) dvd x)" "\<not> (y < 0 \<and> int (to_nat (height e)) dvd y)"
      by simp_all
    from cell_torus_wrapped[OF wf t W H this] this show ?thesis by auto
  qed
next
  show "cell torus_blinker (Fin (- 3)) (Fin 1) = Inl (TypeError ''Cannot read properties of undefined'')"
    by code_simp
  show "cell torus_blinker (Fin 0) (Fin 1) = Inr (Some dead)" by code_simp
  show "cell torus_blinker (Fin 1) (Fin (- 3)) = Inr None" by code_simp
  show "cell torus_blinker (Fin 1) (Fin 0) = Inr (Some alive)" by code_simp
qed

lemma wf_torus_blinker: "wf_engine torus_blinker"
  by (simp add: wf_engine_def torus_blinker_def blinker_def is_nat_def to_nat_def dead_def alive_def)

theorem cell_torus_wrap_witness:
  "cell torus_blinker (Fin (- 1)) (Fin 4) = cell torus_blinker (Fin 2) (Fin 1)
   \<and> cell torus_blinker (Fin (- 3)) (Fin 1) \<noteq> cell torus_blinker (Fin 0) (Fin 1)"
proof -
  have t: "truthy (torus torus_blinker)" by (simp add: torus_blinker_def)
  have w: "to_nat (width torus_blinker) = 3" "to_nat (height torus_blinker) = 3"
    by (simp_all add: torus_blinker_def blinker_def to_nat_def)
  from cell_torus_wrap[of torus_blinker "- 1" 4] wf_torus_blinker t
  have "cell torus_blinker (Fin (- 1)) (Fin 4) = cell torus_blinker (Fin 2) (Fin 1)"
    by (simp add: w)
  moreover from cell_torus_wrap[of torus_blinker 0 0]
  have "cell torus_blinker (Fin (- 3)) (Fin 1) \<noteq> cell torus_blinker (Fin 0) (Fin 1)"
    by simp
  ultimately show ?thesis by simp
qed

section \<open>The step\<close>

lemma cell_lookup:
  assumes wf: "wf_engine e" and ok: "wraps_well e x y"
  shows "cell e (Fin (of_int x)) (Fin (of_int y)) = Inr (Some (lookup e x y))"
proof (cases "truthy (torus e)")
  case True
  with ok have p: "0 < to_nat (width e)" "0 < to_nat (height e)"
    and n: "\<not> (x < 0 \<and> int (to_nat (width e)) dvd x)" "\<not> (y < 0 \<and> int (to_nat (height e)) dvd y)"
    by (simp_all add: wraps_well_def)
  from True n show ?thesis unfolding cell_torus[OF wf True p] lookup_def by simp
next
  case False
  have r: "\<lfloor>rat_of_int x + 1 / 2\<rfloor> = x" "\<lfloor>rat_of_int y + 1 / 2\<rfloor> = y" by linarith+
  show ?thesis unfolding cell_bounded[OF wf False] r lookup_def using False by auto
qed

lemma no_negative_multiple:
  assumes "2 \<le> n" "- 1 \<le> x"
  shows "\<not> (x < 0 \<and> int n dvd x)"
proof
  assume a: "x < 0 \<and> int n dvd x"
  with assms(2) have "x = - 1" by simp
  with a have "int n dvd 1" by simp
  then have "int n = 1" using assms(1) by (simp add: zdvd1_eq)
  with assms(1) show False by simp
qed

lemma wraps_well_near:
  assumes "roomy e" "- 1 \<le> x" "- 1 \<le> y"
  shows "wraps_well e x y"
proof (cases "truthy (torus e)")
  case True
  with assms(1) have 2: "2 \<le> to_nat (width e)" "2 \<le> to_nat (height e)" by (simp_all add: roomy_def)
  from no_negative_multiple[OF 2(1) assms(2)] no_negative_multiple[OF 2(2) assms(3)] 2
  show ?thesis by (simp add: wraps_well_def)
next
  case False
  then show ?thesis by (simp add: wraps_well_def)
qed

lemma neighbours_live:
  assumes wf: "wf_engine e" and r: "roomy e"
  shows "neighbours e (Fin (of_nat i)) (Fin (of_nat j))
    = Inr (Fin (of_nat (live_neighbours e (int i) (int j))))"
proof -
  have c: "cell e (Fin (of_int (int i + dx))) (Fin (of_int (int j + dy)))
      = Inr (Some (lookup e (int i + dx) (int j + dy)))"
    if "- 1 \<le> dx" "- 1 \<le> dy" for dx dy
    using that by (intro cell_lookup[OF wf] wraps_well_near[OF r]) simp_all
  have X: "Fin (rat_of_nat i + - 1) = Fin (of_int (int i + (- 1)))"
    "Fin (rat_of_nat i) = Fin (of_int (int i + 0))"
    "Fin (rat_of_nat i + 1) = Fin (of_int (int i + 1))" by simp_all
  have Y: "Fin (rat_of_nat j + - 1) = Fin (of_int (int j + (- 1)))"
    "Fin (rat_of_nat j) = Fin (of_int (int j + 0))"
    "Fin (rat_of_nat j + 1) = Fin (of_int (int j + 1))" by simp_all
  have "neighbours e (Fin (of_nat i)) (Fin (of_nat j)) =
      Inr (js_add (js_add (js_add (js_add (js_add (js_add (js_add
        (to_number (Some (lookup e (int i + - 1) (int j + - 1))))
        (to_number (Some (lookup e (int i + 0) (int j + - 1)))))
        (to_number (Some (lookup e (int i + 1) (int j + - 1)))))
        (to_number (Some (lookup e (int i + - 1) (int j + 0)))))
        (to_number (Some (lookup e (int i + 1) (int j + 0)))))
        (to_number (Some (lookup e (int i + - 1) (int j + 1)))))
        (to_number (Some (lookup e (int i + 0) (int j + 1)))))
        (to_number (Some (lookup e (int i + 1) (int j + 1)))))"
    unfolding neighbours_def Let_def js_sub_def js_neg.simps js_add.simps
    unfolding X Y
    by (simp only: c bindE_def sum.case)
  also have "\<dots> = Inr (Fin (of_nat (live_neighbours e (int i) (int j))))"
    by (simp add: to_number_def live_neighbours_def)
  finally show ?thesis .
qed

lemma update_filler_step:
  assumes wf: "wf_engine e" and r: "roomy e"
    and i: "i < to_nat (width e)" and j: "j < to_nat (height e)"
  shows "update_filler e (Fin (of_nat i)) (Fin (of_nat j)) v result
    = Inr (survives (grid e ! i ! j) (live_neighbours e (int i) (int j)),
           result + (if survives (grid e ! i ! j) (live_neighbours e (int i) (int j)) then 1 else 0))"
proof -
  from wf i have "grid e \<noteq> []" by (auto simp: wf_engine_def)
  from wf_engineD[OF wf this] obtain W H where wh: "width e = Fin (of_nat W)" "height e = Fin (of_nat H)"
    and l: "length (grid e) = W" and rows: "\<forall>i<W. length (grid e ! i) = H"
    and cells: "\<forall>i<W. \<forall>j<H. grid e ! i ! j = dead \<or> grid e ! i ! j = alive"
    by blast
  from i j wh have ij: "i < W" "j < H" by simp_all
  with l rows cells have len: "i < length (grid e)" "j < length (grid e ! i)"
    and c: "grid e ! i ! j = dead \<or> grid e ! i ! j = alive"
    by simp_all
  then have rd: "read2 (grid e) (Fin (of_nat i)) (Fin (of_nat j)) = Inr (Some (grid e ! i ! j))"
    by (simp add: read2_def)
  have n: "(Fin (rat_of_nat k) = Fin 2) = (k = 2)" "(Fin (rat_of_nat k) = Fin 3) = (k = 3)" for k
    by (simp_all add: of_nat_eq_iff[of k 2, where ?'a = rat, simplified]
        of_nat_eq_iff[of k 3, where ?'a = rat, simplified])
  from c show ?thesis
    unfolding update_filler_def neighbours_live[OF wf r] rd
    by (auto simp: bindE_def n survives_def dead_neq_alive)
qed

lemma fillRow_map:
  assumes "\<forall>j \<in> set js. \<forall>s. f (Fin (of_nat i)) (Fin (of_nat j)) v s
      = Inr (b j, s + (if b j then 1 else 0))"
  shows "fillRow f v i js s
    = Inr (map (\<lambda>j. if b j then alive else dead) js, s + length (filter b js))"
  using assms by (induction js arbitrary: s) (simp_all add: bindE_def)

lemma createRows_map:
  assumes "\<forall>i \<in> set is. \<forall>j < h. \<forall>s. f (Fin (of_nat i)) (Fin (of_nat j)) v s
      = Inr (b i j, s + (if b i j then 1 else 0))"
    and "new_Array (snd v) = Inr h"
  shows "createRows (Function f) v is s
    = Inr (map (\<lambda>i. map (\<lambda>j. if b i j then alive else dead) [0..<h]) is,
           s + sum_list (map (\<lambda>i. length (filter (b i) [0..<h])) is))"
  using assms(1)
proof (induction "is" arbitrary: s)
  case Nil
  then show ?case by simp
next
  case (Cons i "is")
  from Cons.prems have "\<forall>j \<in> set [0..<h]. \<forall>s. f (Fin (of_nat i)) (Fin (of_nat j)) v s
      = Inr (b i j, s + (if b i j then 1 else 0))" by simp
  from fillRow_map[of "[0..<h]" f i v "b i" s, OF this]
  have row: "createRow (Function f) v i s
      = Inr (map (\<lambda>j. if b i j then alive else dead) [0..<h], s + length (filter (b i) [0..<h]))"
    using assms(2) by (simp add: createRow_def bindE_def)
  from Cons.prems have "\<forall>i \<in> set is. \<forall>j < h. \<forall>s. f (Fin (of_nat i)) (Fin (of_nat j)) v s
      = Inr (b i j, s + (if b i j then 1 else 0))" by simp
  from Cons.IH[OF this] row show ?case by (simp add: bindE_def)
qed

lemma population_map:
  "population (map (\<lambda>i. map (\<lambda>j. if b i j then alive else dead) js) is)
     = sum_list (map (\<lambda>i. length (filter (b i) js)) is)"
proof (induction "is")
  case Nil
  then show ?case by (simp add: population_def)
next
  case (Cons i "is")
  have "length (filter (\<lambda>c. c = alive) (map (\<lambda>j. if b i j then alive else dead) js))
      = length (filter (b i) js)"
    by (induction js) (simp_all add: dead_neq_alive)
  with Cons show ?case by (simp add: population_def)
qed

lemma update_next_grid:
  assumes wf: "wf_engine e" and r: "roomy e"
  shows "update e = Inr (population (next_grid e), e\<lparr>grid := next_grid e\<rparr>)"
proof (cases "grid e = []")
  case True
  from wf_engine_empty[OF wf True] have w: "width e = Fin 0" .
  then have "new_Array (width e) = Inr 0" "next_grid e = []"
    by (simp_all add: next_grid_def to_nat_def)
  then show ?thesis by (simp add: update_def createGrid_def bindE_def population_def)
next
  case False
  from wf_engineD[OF wf False] obtain W H where wh: "width e = Fin (of_nat W)" "height e = Fin (of_nat H)"
    and lim: "W < 2 ^ 32" "H < 2 ^ 32" by blast
  define b where "b = (\<lambda>i j. survives (grid e ! i ! j) (live_neighbours e (int i) (int j)))"
  have nw: "new_Array (width e) = Inr W" using lim(1) by (simp add: wh new_Array_of_nat)
  have nh: "new_Array (snd (width e, height e)) = Inr H"
    using lim(2) by (simp add: wh new_Array_of_nat)
  have step: "\<forall>i \<in> set [0..<W]. \<forall>j < H. \<forall>s.
      update_filler e (Fin (of_nat i)) (Fin (of_nat j)) (width e, height e) s
      = Inr (b i j, s + (if b i j then 1 else 0))"
    using update_filler_step[OF wf r] wh by (simp add: b_def)
  from createRows_map[of "[0..<W]" H "update_filler e" "(width e, height e)" b 0, OF step nh]
  have rows: "createRows (Function (update_filler e)) (width e, height e) [0..<W] 0
      = Inr (next_grid e, population (next_grid e))"
    by (simp add: next_grid_def wh population_map b_def)
  show ?thesis by (simp add: update_def createGrid_def bindE_def nw rows)
qed

text \<open>
  Claim C1. For a well-formed engine that is bounded, or a torus at least 2 wide and 2
  high, \<open>update\<close> returns the population of the next grid and installs that grid,
  every cell of which is computed from the grid before the step: alive when a live
  cell has 2 or 3 live neighbours or a dead cell has 3, dead otherwise. On a torus of
  one column the neighbour at \<open>i - 1 = -1\<close> is a negative multiple of the width and
  \<open>update\<close> raises the TypeError of \<open>cell\<close>; on a torus of one row the neighbours
  above and below read as \<open>undefined\<close>, the count is NaN and every cell dies, where the
  rule makes all three cells of the row \<open>[0, 1, 0]\<close> alive.
\<close>

theorem update_rule:
  "(wf_engine e \<and> roomy e \<longrightarrow>
      update e = Inr (population (next_grid e), e\<lparr>grid := next_grid e\<rparr>))
   \<and> update torus_dot = Inl (TypeError ''Cannot read properties of undefined'')
   \<and> update torus_row = Inr (0, torus_row\<lparr>grid := [[dead], [dead], [dead]]\<rparr>)
   \<and> next_grid torus_row = [[alive], [alive], [alive]]"
proof (intro conjI impI)
  assume "wf_engine e \<and> roomy e"
  then show "update e = Inr (population (next_grid e), e\<lparr>grid := next_grid e\<rparr>)"
    using update_next_grid by blast
next
  show "update torus_dot = Inl (TypeError ''Cannot read properties of undefined'')" by code_simp
  show "update torus_row = Inr (0, torus_row\<lparr>grid := [[dead], [dead], [dead]]\<rparr>)" by code_simp
  show "next_grid torus_row = [[alive], [alive], [alive]]" by code_simp
qed

theorem update_rule_witness:
  "wf_engine blinker \<and> roomy blinker
   \<and> update blinker = Inr (3, blinker\<lparr>grid := [[0, 1, 0], [0, 1, 0], [0, 1, 0]]\<rparr>)"
proof -
  have r: "roomy blinker" by (simp add: roomy_def blinker_def)
  have n: "next_grid blinker = [[0, 1, 0], [0, 1, 0], [0, 1, 0]]" by code_simp
  have p: "population [[0, 1, 0], [0, 1, 0], [0, 1, 0]] = 3" by code_simp
  from update_rule[of blinker] wf_blinker r
  have "update blinker = Inr (population (next_grid blinker), blinker\<lparr>grid := next_grid blinker\<rparr>)"
    by blast
  then have "update blinker = Inr (3, blinker\<lparr>grid := [[0, 1, 0], [0, 1, 0], [0, 1, 0]]\<rparr>)"
    by (simp only: n p)
  with wf_blinker r show ?thesis by blast
qed

section \<open>Construction\<close>

lemma fillRow_total:
  assumes "\<forall>i j v s. \<exists>b s'. f i j v s = Inr (b, s')"
  shows "\<exists>row s'. fillRow f v i js s = Inr (row, s')"
proof (induction js arbitrary: s)
  case Nil
  then show ?case by simp
next
  case (Cons j js)
  from assms obtain b s1 where 1: "f (Fin (of_nat i)) (Fin (of_nat j)) v s = Inr (b, s1)" by blast
  from Cons[of s1] obtain row s2 where 2: "fillRow f v i js s1 = Inr (row, s2)" by blast
  from 1 2 show ?case by (simp add: bindE_def)
qed

lemma createRow_total:
  assumes "harmless filler" "new_Array (snd v) = Inr h"
  shows "\<exists>row s'. createRow filler v i s = Inr (row, s')"
proof (cases filler)
  case (Function f)
  with assms(1) have "\<forall>i j v s. \<exists>b s'. f i j v s = Inr (b, s')" by (simp add: harmless_def)
  from fillRow_total[OF this, of v i "[0..<h]" s] Function assms(2) show ?thesis
    by (simp add: createRow_def bindE_def)
next
  case (NotFunction x)
  with assms(2) show ?thesis by (simp add: createRow_def bindE_def)
qed

lemma createRows_total:
  assumes "harmless filler" "is = [] \<or> (\<exists>h. new_Array (snd v) = Inr h)"
  shows "\<exists>g s'. createRows filler v is s = Inr (g, s')"
  using assms(2)
proof (induction "is" arbitrary: s)
  case Nil
  then show ?case by simp
next
  case (Cons i "is")
  then obtain h where h: "new_Array (snd v) = Inr h" by auto
  from createRow_total[OF assms(1) h, of i s] obtain row s1 where
    1: "createRow filler v i s = Inr (row, s1)" by blast
  from Cons.IH[of s1] h obtain g s2 where 2: "createRows filler v is s1 = Inr (g, s2)" by blast
  from 1 2 show ?case by (simp add: bindE_def)
qed

lemma createGrid_total:
  assumes "harmless filler" "new_Array (width e) = Inr w" "w = 0 \<or> (\<exists>h. new_Array (height e) = Inr h)"
  shows "\<exists>e' s'. createGrid e filler s = Inr (e', s') \<and> width e' = width e \<and> height e' = height e"
proof -
  from assms(3) have "[0..<w] = [] \<or> (\<exists>h. new_Array (snd (width e, height e)) = Inr h)" by auto
  from createRows_total[OF assms(1) this, of s] obtain g s' where
    "createRows filler (width e, height e) [0..<w] s = Inr (g, s')" by blast
  with assms(2) show ?thesis by (simp add: createGrid_def bindE_def)
qed

lemma ceil_div_cases:
  fixes q :: rat
  assumes "0 < q"
  shows "(\<exists>k::nat. Math_ceil (js_div (Fin (of_nat c)) (Fin q)) = Fin (of_nat k))
    \<or> Math_ceil (js_div (Fin (of_nat c)) (Fin q)) = PosInf"
proof -
  have "0 \<le> rat_of_nat c / q" using assms by simp
  from to_double_nonneg[OF this] show ?thesis
  proof
    assume "\<exists>r\<ge>0. to_double (rat_of_nat c / q) = Fin r"
    then obtain r where r: "0 \<le> r" "to_double (rat_of_nat c / q) = Fin r" by blast
    from r(1) have "0 \<le> \<lceil>r\<rceil>" by (simp add: order.trans[OF _ le_of_int_ceiling])
    then have "rat_of_int \<lceil>r\<rceil> = of_nat (nat \<lceil>r\<rceil>)" by simp
    with r(2) assms show ?thesis by auto
  next
    assume "to_double (rat_of_nat c / q) = PosInf"
    with assms show ?thesis by simp
  qed
qed

lemma new_Array_ceiling:
  fixes q :: rat
  assumes "0 < q" "js_lt (Math_ceil (js_div (Fin (of_nat c)) (Fin q))) (Fin (2 ^ 32))"
  shows "\<exists>n. new_Array (Math_ceil (js_div (Fin (of_nat c)) (Fin q))) = Inr n"
proof -
  from ceil_div_cases[OF assms(1), of c] assms(2) obtain k :: nat
    where k: "Math_ceil (js_div (Fin (of_nat c)) (Fin q)) = Fin (of_nat k)" by auto
  from assms(2) have "rat_of_nat k < 2 ^ 32" unfolding k by simp
  then have "rat_of_nat k < rat_of_nat (2 ^ 32)" by simp
  then have "k < 2 ^ 32" by (simp only: of_nat_less_iff)
  then show ?thesis unfolding k by (simp add: new_Array_of_nat)
qed

lemma GameOfLife_size_rejected:
  assumes "\<forall>q. 0 < q \<longrightarrow> dflt (opt_size opts) (Number (Fin 10)) \<noteq> Number (Fin q)"
  shows "\<exists>err. GameOfLife canvas filler opts s = Inl err"
proof (cases "GameOfLife canvas filler opts s")
  case (Inl err)
  then show ?thesis by blast
next
  case (Inr r)
  obtain e s' where r: "r = (e, s')" by (cases r)
  from GameOfLife_Inr[OF Inr[unfolded r]] obtain cw ch n col e0 where
    size: "dflt (opt_size opts) (Number (Fin 10)) = Number n"
    and n: "isFinite n" "\<not> js_lt n (Fin 0)"
    and e0: "e0 = \<lparr>width = Math_ceil (js_div (Fin (of_nat cw)) n),
         height = Math_ceil (js_div (Fin (of_nat ch)) n),
         torus = dflt (opt_torus opts) (Boolean False), grid = [], cellSize = n,
         cellColor = col,
         framesPerSecond = dflt (opt_framesPerSecond opts) (Number (Fin 5))\<rparr>"
    and cg: "createGrid e0 filler s = Inr (e, s')"
    by blast
  from n obtain sz where sz: "n = Fin sz" "0 \<le> sz" by (cases n) (auto simp: not_less)
  from cg obtain w where w: "new_Array (width e0) = Inr w" by (auto simp: createGrid_def bindE_Inr)
  have "sz \<noteq> 0"
  proof
    assume "sz = 0"
    with w e0 sz show False by (cases "rat_of_nat cw = 0") simp_all
  qed
  with sz have "0 < sz" by simp
  with assms size sz show ?thesis by blast
qed

lemma GameOfLife_accepts:
  assumes "harmless filler"
    and "dflt (opt_size opts) (Number (Fin 10)) = Number (Fin q)" "0 < q"
    and "dflt (opt_color opts) (String ''#FF0000'') = String col"
    and "js_lt (Math_ceil (js_div (Fin (of_nat cw)) (Fin q))) (Fin (2 ^ 32))"
    and "cw = 0 \<or> js_lt (Math_ceil (js_div (Fin (of_nat ch)) (Fin q))) (Fin (2 ^ 32))"
  shows "\<exists>e s'. GameOfLife (HTMLCanvasElement cw ch) filler opts s = Inr (e, s')
    \<and> width e = Math_ceil (js_div (Fin (of_nat cw)) (Fin q))
    \<and> height e = Math_ceil (js_div (Fin (of_nat ch)) (Fin q))
    \<and> length (grid e) = to_nat (width e)"
proof -
  define e0 where "e0 = \<lparr>width = Math_ceil (js_div (Fin (of_nat cw)) (Fin q)),
         height = Math_ceil (js_div (Fin (of_nat ch)) (Fin q)),
         torus = dflt (opt_torus opts) (Boolean False), grid = [], cellSize = Fin q,
         cellColor = col,
         framesPerSecond = dflt (opt_framesPerSecond opts) (Number (Fin 5))\<rparr>"
  have f: "\<not> (case filler of NotFunction v \<Rightarrow> truthy v | Function _ \<Rightarrow> False)"
    using assms(1) by (auto simp: harmless_def split: filler_arg.splits)
  have G: "GameOfLife (HTMLCanvasElement cw ch) filler opts s = createGrid e0 filler s"
    using assms(2,3,4) f unfolding GameOfLife_def Let_def e0_def by simp
  from new_Array_ceiling[OF assms(3,5)] obtain w where w: "new_Array (width e0) = Inr w"
    by (auto simp: e0_def)
  have "w = 0 \<or> (\<exists>h. new_Array (height e0) = Inr h)"
  proof (cases "cw = 0")
    case True
    with w assms(3) show ?thesis by (simp add: e0_def to_double_0)
  next
    case False
    with assms(6) new_Array_ceiling[OF assms(3), of ch] show ?thesis by (simp add: e0_def)
  qed
  from createGrid_total[OF assms(1) w this, of s] obtain e s' where
    e: "createGrid e0 filler s = Inr (e, s')" "width e = width e0" "height e = height e0"
    by blast
  from e(1) G have "wf_engine e" using GameOfLife_wf[of "HTMLCanvasElement cw ch" filler opts s e s'] by simp
  then have "length (grid e) = to_nat (width e)" by (simp add: wf_engine_def)
  with e G show ?thesis by (simp add: e0_def)
qed

text \<open>
  A canvas 9 wide with the double nearest to 0.3 as size: the exact quotient has the
  ceiling 31, the engine has 30 columns.
\<close>

lemma GameOfLife_rounded_width:
  "\<exists>e s'. GameOfLife (HTMLCanvasElement 9 9) (NotFunction Undefined)
      (no_settings\<lparr>opt_size := Number (Fin (5404319552844595 / 18014398509481984))\<rparr>) ()
        = Inr (e, s')
     \<and> width e = Fin 30 \<and> length (grid e) = 30
     \<and> \<lceil>rat_of_nat 9 / (5404319552844595 / 18014398509481984)\<rceil> = 31"
proof -
  have h: "harmless (NotFunction Undefined)" by (simp add: harmless_def)
  have c: "\<lceil>rat_of_nat 9 / (5404319552844595 / 18014398509481984)\<rceil> = 31"
    by (rule ceiling_unique) simp_all
  have n: "to_nat (Fin 30) = 30" by (simp add: to_nat_def)
  from GameOfLife_accepts[of "NotFunction Undefined"
      "no_settings\<lparr>opt_size := Number (Fin (5404319552844595 / 18014398509481984))\<rparr>"
      "5404319552844595 / 18014398509481984" "''#FF0000''" 9 9 "()", OF h]
  have "\<exists>e s'. GameOfLife (HTMLCanvasElement 9 9) (NotFunction Undefined)
      (no_settings\<lparr>opt_size := Number (Fin (5404319552844595 / 18014398509481984))\<rparr>) ()
        = Inr (e, s')
     \<and> width e = Fin 30 \<and> length (grid e) = 30"
    unfolding js_div_rounds by (auto simp: no_settings_def dflt_def n)
  with c show ?thesis by blast
qed

text \<open>
  Claim C8, as amended. Construction fails whenever the size is not a finite number
  greater than 0 (a size of 0 passes the range check and fails in the allocation of
  the grid). With a canvas, a harmless filler, a string as colour, a finite size
  greater than 0 and array lengths below \<open>2^32\<close>, construction succeeds with
  \<open>width = Math.ceil(canvas.width / size)\<close> and
  \<open>height = Math.ceil(canvas.height / size)\<close>, the quotients being the doubles that
  the division gives, and with a grid of \<open>width\<close> columns: whatever number
  \<open>framesPerSecond\<close> is, and also when the canvas is 0 wide or high.
\<close>

theorem GameOfLife_validation:
  "((\<forall>q. 0 < q \<longrightarrow> dflt (opt_size opts) (Number (Fin 10)) \<noteq> Number (Fin q))
      \<longrightarrow> (\<exists>err. GameOfLife canvas filler opts s = Inl err))
   \<and> (harmless filler
      \<and> dflt (opt_size opts) (Number (Fin 10)) = Number (Fin q) \<and> 0 < q
      \<and> dflt (opt_color opts) (String ''#FF0000'') = String col
      \<and> (opt_framesPerSecond opts = Undefined \<or> opt_framesPerSecond opts = Number fps)
      \<and> js_lt (Math_ceil (js_div (Fin (of_nat cw)) (Fin q))) (Fin (2 ^ 32))
      \<and> (cw = 0 \<or> js_lt (Math_ceil (js_div (Fin (of_nat ch)) (Fin q))) (Fin (2 ^ 32)))
      \<longrightarrow> (\<exists>e s'. GameOfLife (HTMLCanvasElement cw ch) filler opts s = Inr (e, s')
            \<and> width e = Math_ceil (js_div (Fin (of_nat cw)) (Fin q))
            \<and> height e = Math_ceil (js_div (Fin (of_nat ch)) (Fin q))
            \<and> length (grid e) = to_nat (width e)))"
  using GameOfLife_size_rejected[of opts canvas filler s]
    GameOfLife_accepts[of filler opts q col cw ch s]
  by blast

theorem GameOfLife_validation_witness:
  "(\<exists>err. GameOfLife (HTMLCanvasElement 30 20) (NotFunction Undefined)
        (no_settings\<lparr>opt_size := Number (Fin 0)\<rparr>) () = Inl err)
   \<and> (\<exists>e s'. GameOfLife (HTMLCanvasElement 30 20) (NotFunction Undefined)
        (no_settings\<lparr>opt_framesPerSecond := Number (Fin (- 1))\<rparr>) () = Inr (e, s')
        \<and> width e = Fin 3 \<and> height e = Fin 2 \<and> length (grid e) = 3)"
proof -
  have 1: "\<forall>q. 0 < q \<longrightarrow> dflt (opt_size (no_settings\<lparr>opt_size := Number (Fin 0)\<rparr>)) (Number (Fin 10)) \<noteq> Number (Fin q)"
    by (simp add: dflt_def)
  have 2: "harmless (NotFunction Undefined)" by (simp add: harmless_def)
  have 3: "Math_ceil (js_div (Fin (of_nat 30)) (Fin 10)) = Fin 3"
    "Math_ceil (js_div (Fin (of_nat 20)) (Fin 10)) = Fin 2"
    by (simp_all add: to_double_numeral)
  have 4: "to_nat (Fin 3) = 3" by (simp add: to_nat_def)
  from GameOfLife_validation[of "no_settings\<lparr>opt_size := Number (Fin 0)\<rparr>"
      "HTMLCanvasElement 30 20" "NotFunction Undefined" "()" 10 "''#FF0000''" "Fin (- 1)" 30 20] 1
  have a: "\<exists>err. GameOfLife (HTMLCanvasElement 30 20) (NotFunction Undefined)
        (no_settings\<lparr>opt_size := Number (Fin 0)\<rparr>) () = Inl err" by blast
  from GameOfLife_validation[of "no_settings\<lparr>opt_framesPerSecond := Number (Fin (- 1))\<rparr>"
      "HTMLCanvasElement 30 20" "NotFunction Undefined" "()" 10 "''#FF0000''" "Fin (- 1)" 30 20] 2
  have b: "\<exists>e s'. GameOfLife (HTMLCanvasElement 30 20) (NotFunction Undefined)
        (no_settings\<lparr>opt_framesPerSecond := Number (Fin (- 1))\<rparr>) () = Inr (e, s')
        \<and> width e = Fin 3 \<and> height e = Fin 2 \<and> length (grid e) = 3"
    unfolding 3 by (auto simp: no_settings_def dflt_def 4)
  from a b show ?thesis by blast
qed

text \<open>
  The claim as stated fails: a frame rate of \<open>-1\<close> is accepted, and so is a canvas of
  0 by 0, which gives an empty grid.
\<close>

theorem GameOfLife_unvalidated:
  "GameOfLife (HTMLCanvasElement 30 20) (NotFunction Undefined)
      (no_settings\<lparr>opt_framesPerSecond := Number (Fin (- 1))\<rparr>) ()
    = Inr (\<lparr>width = Fin 3, height = Fin 2, torus = Boolean False, grid = [[0, 0], [0, 0], [0, 0]],
            cellSize = Fin 10, cellColor = ''#FF0000'', framesPerSecond = Number (Fin (- 1))\<rparr>, ())
   \<and> GameOfLife (HTMLCanvasElement 0 0) (NotFunction Undefined) no_settings ()
    = Inr (\<lparr>width = Fin 0, height = Fin 0, torus = Boolean False, grid = [],
            cellSize = Fin 10, cellColor = ''#FF0000'', framesPerSecond = Number (Fin 5)\<rparr>, ())"
  by (simp add: GameOfLife_def no_settings_def dflt_def createGrid_def createRow_def bindE_def
      dead_def to_double_3 to_double_2 to_double_0 upt_rec numeral_2_eq_2 numeral_3_eq_3)

section \<open>The decoded grid\<close>

lemma tag_Return: "tag st c = Return g \<longleftrightarrow> c = CHR ''!'' \<and> g = pat st"
  by (auto simp: tag_def is_digit_def split: sum.splits)




















subsection \<open>Where decoding ends\<close>

lemma tags_bang: "tags st pre = Next st' \<Longrightarrow> tags st (pre @ CHR ''!'' # rest) = Return (pat st')"
proof (induction pre arbitrary: st)
  case Nil
  then show ?case by (simp add: tag_def is_digit_def)
next
  case (Cons c pre)
  then show ?case by (cases "tag st c") auto
qed

lemma tag_hash: "tag st CHR ''#'' = Throw (SyntaxError ''Invalid tag!'')"
  by (simp add: tag_def is_digit_def)

lemma tags_Return_line:
  assumes "tags st (trim l) = Return g"
  shows "decode (Some st) (l # ls) = Inr (Some g)"
proof -
  from assms have "trim l \<noteq> []" by auto
  moreover from assms have "hd (trim l) \<noteq> CHR ''#''"
    by (cases "trim l") (auto simp: tag_hash)
  ultimately show ?thesis using assms by simp
qed

lemma tags_Return_bang: "tags st cs = Return g \<Longrightarrow> CHR ''!'' \<in> set cs"
proof (induction cs arbitrary: st)
  case Nil
  then show ?case by simp
next
  case (Cons c cs)
  then show ?case by (cases "tag st c") (auto simp: tag_Return)
qed

lemma set_trim: "set (trim l) \<subseteq> set l"
proof -
  have "set (trim l) = set (dropWhile is_space (rev (dropWhile is_space l)))" by (simp add: trim_def)
  also have "\<dots> \<subseteq> set (rev (dropWhile is_space l))" by (rule set_dropWhileD[THEN subsetI])
  also have "\<dots> \<subseteq> set l" using set_dropWhileD by fastforce
  finally show ?thesis .
qed

lemma decode_grid_bang:
  "decode st ls = Inr (Some g) \<Longrightarrow> \<exists>l \<in> set ls. CHR ''!'' \<in> set l"
proof (induction ls arbitrary: st)
  case Nil
  then show ?case by simp
next
  case (Cons l ls)
  show ?case
  proof (cases "skipped l")
    case True
    with Cons show ?thesis by (auto simp: skipped_def split: if_splits)
  next
    case False
    show ?thesis
    proof (cases st)
      case None
      with False Cons.prems obtain c where "decode (Some c) ls = Inr (Some g)"
        by (auto simp: skipped_def bindE_Inr split: option.splits)
      with Cons.IH show ?thesis by auto
    next
      case (Some c)
      show ?thesis
      proof (cases "tags c (trim l)")
        case (Next c')
        with False Some Cons.prems Cons.IH[of "Some c'"] show ?thesis by (auto simp: skipped_def)
      next
        case (Return g')
        from tags_Return_bang[OF this] set_trim[of l] show ?thesis by auto
      next
        case (Throw err)
        with False Some Cons.prems show ?thesis by (simp add: skipped_def)
      qed
    qed
  qed
qed

lemma set_split_lines: "l \<in> set (split_lines src) \<Longrightarrow> set l \<subseteq> set src"
proof (induction src arbitrary: l)
  case Nil
  then show ?case by simp
next
  case (Cons c cs)
  then show ?case by (cases "split_lines cs") (fastforce split: if_splits)+
qed

lemma loadRle_no_bang:
  assumes "CHR ''!'' \<notin> set src"
  shows "loadRle src \<noteq> Inr (Some g)"
proof
  assume "loadRle src = Inr (Some g)"
  then have "decode None (split_lines src) = Inr (Some g)" by (simp add: loadRle_def)
  from decode_grid_bang[OF this]
  obtain l where "l \<in> set (split_lines src)" "CHR ''!'' \<in> set l" by blast
  with set_split_lines[of l src] assms show False by auto
qed

lemma rleFiller_no_grid:
  assumes "\<forall>g. loadRle src \<noteq> Inr (Some g)"
  shows "\<exists>err. rleFiller src = Inl err"
proof (cases "loadRle src")
  case (Inl err)
  then show ?thesis by (simp add: rleFiller_def bindE_def)
next
  case (Inr r)
  with assms have "r = None" by (cases r) auto
  with Inr show ?thesis by (simp add: rleFiller_def bindE_def)
qed

text \<open>
  Claim C6. A \<open>!\<close> that the tag loop reaches returns the grid built so far, whatever
  follows it on the line and whatever lines follow. The end of the input does not:
  the loop over the lines is followed by no \<open>return\<close>, so a text without \<open>!\<close> never
  yields a grid, and \<open>rleFiller\<close> of such a text never yields a filler. The body \<open>3o\<close>
  under the header \<open>x = 3, y = 1\<close> decodes to \<open>undefined\<close> and \<open>rleFiller\<close> raises a
  TypeError on it, where the same body with \<open>!\<close> gives the row of three live cells.
\<close>

theorem loadRle_end_of_input:
  "(tags st pre = Next st' \<longrightarrow> tags st (pre @ CHR ''!'' # rest) = Return (pat st'))
   \<and> (tags st (trim l) = Return g \<longrightarrow> decode (Some st) (l # ls) = Inr (Some g))
   \<and> (CHR ''!'' \<notin> set src \<longrightarrow> loadRle src \<noteq> Inr (Some g) \<and> (\<exists>err. rleFiller src = Inl err))
   \<and> loadRle ''x = 3, y = 1\<newline>3o'' = Inr None
   \<and> rleFiller ''x = 3, y = 1\<newline>3o'' = Inl (TypeError ''Cannot read properties of undefined'')
   \<and> loadRle ''x = 3, y = 1\<newline>3o!'' = Inr (Some [[Some alive, Some alive, Some alive]])"
proof (intro conjI impI)
  assume "tags st pre = Next st'"
  then show "tags st (pre @ CHR ''!'' # rest) = Return (pat st')" by (rule tags_bang)
next
  assume "tags st (trim l) = Return g"
  then show "decode (Some st) (l # ls) = Inr (Some g)" by (rule tags_Return_line)
next
  assume "CHR ''!'' \<notin> set src"
  then show "loadRle src \<noteq> Inr (Some g)" by (rule loadRle_no_bang)
next
  assume "CHR ''!'' \<notin> set src"
  then have "\<forall>g. loadRle src \<noteq> Inr (Some g)" by (simp add: loadRle_no_bang)
  then show "\<exists>err. rleFiller src = Inl err" by (rule rleFiller_no_grid)
next
  show "loadRle ''x = 3, y = 1\<newline>3o'' = Inr None" by code_simp
next
  show "rleFiller ''x = 3, y = 1\<newline>3o'' = Inl (TypeError ''Cannot read properties of undefined'')"
    by code_simp
next
  show "loadRle ''x = 3, y = 1\<newline>3o!'' = Inr (Some [[Some alive, Some alive, Some alive]])"
    by code_simp
qed

theorem loadRle_end_of_input_witness:
  "tags (first_cursor 3 1) ''3o!junk'' = Return [[Some 1, Some 1, Some 1]]
   \<and> decode (Some (first_cursor 3 1)) [''3o!junk'', ''#''] = Inr (Some [[Some 1, Some 1, Some 1]])
   \<and> loadRle ''x = 3, y = 1\<newline>3o'' \<noteq> Inr (Some [[Some 1, Some 1, Some 1]])
   \<and> (\<exists>err. rleFiller ''x = 3, y = 1\<newline>3o'' = Inl err)"
proof -
  have 1: "tags (first_cursor 3 1) ''3o''
    = Next \<lparr>pat = [[Some 1, Some 1, Some 1]], runCount = 0, cx = 3, cy = 0\<rparr>"
    by code_simp
  have 2: "CHR ''!'' \<notin> set ''x = 3, y = 1\<newline>3o''" by simp
  have 3: "trim ''3o!junk'' = ''3o'' @ CHR ''!'' # ''junk''" by code_simp
  from loadRle_end_of_input[of "first_cursor 3 1" "''3o''"
      "\<lparr>pat = [[Some 1, Some 1, Some 1]], runCount = 0, cx = 3, cy = 0\<rparr>" "''junk''"
      "''3o!junk''" "[[Some 1, Some 1, Some 1]]" "[''#'']" "''x = 3, y = 1\<newline>3o''"] 1 2 3
  show ?thesis by simp
qed

subsection \<open>The row terminator\<close>

lemma tag_dollar: "tag st CHR ''$'' = Next (st\<lparr>cy := cy st + 1, cx := 0\<rparr>)"
  by (simp add: tag_def is_digit_def)

text \<open>
  Claim C5. The tag \<open>$\<close> sets \<open>x\<close> to 0 and increments \<open>y\<close>, and leaves \<open>runCount\<close> as
  it is: a count written before \<open>$\<close> is still pending at the next tag. In \<open>2$o!\<close> the
  \<open>o\<close> of the second row marks two cells.
\<close>

theorem dollar_keeps_run_count:
  "tag st CHR ''$'' = Next (st\<lparr>cy := cy st + 1, cx := 0\<rparr>)
   \<and> loadRle ''x = 3, y = 2\<newline>2$o!''
       = Inr (Some [[Some dead, Some dead, Some dead], [Some alive, Some alive, Some dead]])"
proof
  show "tag st CHR ''$'' = Next (st\<lparr>cy := cy st + 1, cx := 0\<rparr>)" by (rule tag_dollar)
  show "loadRle ''x = 3, y = 2\<newline>2$o!''
       = Inr (Some [[Some dead, Some dead, Some dead], [Some alive, Some alive, Some dead]])"
    by code_simp
qed

theorem dollar_keeps_run_count_witness:
  "tag \<lparr>pat = [], runCount = 2, cx = 5, cy = 0\<rparr> CHR ''$''
     = Next \<lparr>pat = [], runCount = 2, cx = 0, cy = 1\<rparr>
   \<and> loadRle ''x = 3, y = 2\<newline>2$o!''
       \<noteq> Inr (Some [[Some dead, Some dead, Some dead], [Some alive, Some dead, Some dead]])"
  using dollar_keeps_run_count[of "\<lparr>pat = [], runCount = 2, cx = 5, cy = 0\<rparr>"]
  by (simp add: dead_def alive_def)

subsection \<open>The offsets of the pattern filler\<close>

lemma rle_call_keeps_offsets:
  assumes "\<not> not_tran tx" "\<not> not_tran ty" "rle_call p x y v (tx, ty) = Inr (b, st')"
  shows "st' = (tx, ty)"
  using assms
  by (auto simp: rle_call_def Let_def not_tran_def split: if_splits option.splits)

lemma rle_call_first_offsets:
  assumes "rle_call p x y v (None, None) = Inr (b, st')"
  shows "st' = (Some (centre (fst v) (pat_width p)), Some (centre (snd v) (pat_height p)))"
  using assms
  by (auto simp: rle_call_def Let_def not_tran_def split: if_splits option.splits)

text \<open>
  Claim C7. An offset that was computed as 0 is falsy, so the next call computes it
  again from the dimensions it sees: the glider, 3 by 3, first asked by a 3 by 3 engine
  and then by a 13 by 13 engine, moves from offset (0, 0) to offset (5, 5).
\<close>

theorem rleFiller_offset_recomputed:
  "rleFiller glider_text = Inr glider
   \<and> rle_call glider (Fin 0) (Fin 0) (Fin 3, Fin 3) (None, None)
       = Inr (False, (Some (Fin 0), Some (Fin 0)))
   \<and> rle_call glider (Fin 0) (Fin 0) (Fin 13, Fin 13) (Some (Fin 0), Some (Fin 0))
       = Inr (False, (Some (Fin 5), Some (Fin 5)))"
proof -
  have r: "rleFiller glider_text = Inr glider" by code_simp
  have c: "centre (Fin 3) 3 = Fin 0" "centre (Fin 13) 3 = Fin 5"
    by (simp_all add: centre_def js_sub_def to_double_0 to_double_numeral)
  have "rle_call glider (Fin 0) (Fin 0) (Fin 3, Fin 3) (None, None)
       = Inr (False, (Some (Fin 0), Some (Fin 0)))"
    by (simp add: rle_call_def Let_def not_tran_def glider_def c js_sub_def dead_def alive_def)
  moreover have "rle_call glider (Fin 0) (Fin 0) (Fin 13, Fin 13) (Some (Fin 0), Some (Fin 0))
       = Inr (False, (Some (Fin 5), Some (Fin 5)))"
    by (simp add: rle_call_def Let_def not_tran_def glider_def c js_sub_def dead_def alive_def)
  ultimately show ?thesis using r by simp
qed

theorem rleFiller_offset_recomputed_witness:
  "rle_call glider (Fin 0) (Fin 0) (Fin 13, Fin 13) (Some (Fin 0), Some (Fin 0))
     \<noteq> Inr (False, (Some (Fin 0), Some (Fin 0)))"
  using rleFiller_offset_recomputed by simp

section \<open>The run lifecycle\<close>

lemma start_idempotent: "start (start g) = start g"
  by (simp add: start_def)

lemma start_twice_from_idle:
  assumes "handler g = None" "pending g = 0"
  shows "pending (start (start g)) = 1"
  using assms by (simp add: start_def pending_def)

lemma stop_idle: "handler g = None \<Longrightarrow> stop g = g"
  by (simp add: stop_def)

lemma single_flight_start: "single_flight g \<Longrightarrow> single_flight (start g)"
  by (auto simp: single_flight_def start_def pending_def)

lemma single_flight_fire:
  assumes "single_flight g" "ev \<noteq> Stop" "fire g ev = Some g'"
  shows "single_flight g'"
proof (cases ev)
  case Start
  with assms show ?thesis by (auto intro: single_flight_start)
next
  case Stop
  with assms show ?thesis by simp
next
  case (TimerFires h)
  with assms have h: "h \<in> set (timeouts g)" and g': "g' = timer_fires h g"
    by (auto split: if_splits)
  from h have pos: "0 < length (timeouts g)" by (cases "timeouts g") auto
  from assms(1) have le: "length (timeouts g) + frames g \<le> 1"
    and idle: "handler g = None \<longrightarrow> length (timeouts g) + frames g = 0"
    by (simp_all add: single_flight_def pending_def)
  from pos le have "length (timeouts g) = 1" "frames g = 0" by linarith+
  moreover from pos idle have "handler g \<noteq> None" by auto
  ultimately have "length (timeouts g) = 1" "frames g = 0" "handler g \<noteq> None" by simp_all
  with h have "timeouts g = [h]" by (cases "timeouts g") auto
  with \<open>frames g = 0\<close> \<open>handler g \<noteq> None\<close> show ?thesis
    by (simp add: g' timer_fires_def single_flight_def pending_def)
next
  case FrameFires
  with assms have f: "0 < frames g" and g': "g' = frame_fires g" by (auto split: if_splits)
  from assms(1) have le: "length (timeouts g) + frames g \<le> 1"
    and idle: "handler g = None \<longrightarrow> length (timeouts g) + frames g = 0"
    by (simp_all add: single_flight_def pending_def)
  from f le have "length (timeouts g) = 0" "frames g = 1" by linarith+
  moreover from f idle have "handler g \<noteq> None" by auto
  ultimately have t: "timeouts g = []" "frames g = 1" "handler g \<noteq> None" by simp_all
  show ?thesis
  proof (cases "update (eng g)")
    case (Inl err)
    with t show ?thesis by (simp add: g' frame_fires_def single_flight_def pending_def)
  next
    case (Inr r)
    obtain count e' where r: "r = (count, e')" by (cases r)
    have "single_flight (g\<lparr>frames := frames g - 1, eng := e', handler := None\<rparr>)"
      using t by (simp add: single_flight_def pending_def)
    with Inr r show ?thesis
      by (auto simp: g' frame_fires_def Let_def intro: single_flight_start)
  qed
qed

lemma single_flight_run:
  "single_flight g \<Longrightarrow> Stop \<notin> set evs \<Longrightarrow> run g evs = Some g' \<Longrightarrow> single_flight g'"
proof (induction evs arbitrary: g)
  case Nil
  then show ?case by simp
next
  case (Cons ev evs)
  from Cons.prems(3) obtain g1 where 1: "fire g ev = Some g1" and 2: "run g1 evs = Some g'"
    by (auto split: option.splits)
  from single_flight_fire[OF Cons.prems(1) _ 1] Cons.prems(2) have "single_flight g1" by auto
  from Cons.IH[OF this _ 2] Cons.prems(2) show ?case by simp
qed

lemma single_flight_without_stop:
  assumes "Stop \<notin> set evs" "run (new_game e) evs = Some g"
  shows "pending g \<le> 1"
proof -
  have "single_flight (new_game e)" by (simp add: single_flight_def new_game_def pending_def)
  from single_flight_run[OF this assms] show ?thesis by (simp add: single_flight_def)
qed

text \<open>
  Claim C9. A call of \<open>stop\<close> between the timeout and its animation frame clears the
  handler and cancels nothing, since the timeout has fired already; the \<open>start\<close> that
  follows sets a second timeout. After \<open>start\<close>, the timeout, \<open>stop\<close>, \<open>start\<close> two
  steps are pending: the frame of the first run and the timeout of the second.
\<close>

theorem stop_start_two_pending:
  "run (new_game blinker) [Start, TimerFires 1, Stop, Start]
     = Some \<lparr>eng = blinker, handler = Some 2, timeouts = [2], frames = 1, next_id = 3\<rparr>
   \<and> pending \<lparr>eng = blinker, handler = Some 2, timeouts = [2], frames = 1, next_id = 3\<rparr> = 2"
  by code_simp

theorem stop_start_two_pending_witness:
  "map_option pending (run (new_game blinker) [Start, TimerFires 1, Stop, Start]) = Some 2"
  using stop_start_two_pending by simp

end
